theory Spec2Isabelle
  imports Main "HOL-Library.AList" "HOL-Library.Char_ord" "HOL-Library.List_Lexorder"
begin

section \<open>Python values, errors and library operations\<close>

text \<open>
  Every \<^verbatim>\<open>raise\<close> and every failing \<^verbatim>\<open>assert\<close> of the source is a value of
  \<open>error\<close>; a fallible function returns \<open>error + 'a\<close> with \<open>Inl\<close> for the exception.
  Assertions are modelled as enabled (the interpreter is not run with \<^verbatim>\<open>-O\<close>).
\<close>

datatype error = AssertionError | IndexError | ValueError | TypeError | AttributeError | KeyError

text \<open>
  Indexing of a Python list, a numpy array or a pandas \<^verbatim>\<open>iloc\<close> with one integer:
  an index in \<open>[0, n)\<close> reads that position, an index in \<open>[-n, 0)\<close> counts from the end,
  anything else raises \<^verbatim>\<open>IndexError\<close>.
\<close>

definition py_index :: "'a list \<Rightarrow> int \<Rightarrow> error + 'a" where
  "py_index xs i =
     (if 0 \<le> i \<and> i < int (length xs) then Inr (xs ! nat i)
      else if - int (length xs) \<le> i \<and> i < 0 then Inr (xs ! nat (int (length xs) + i))
      else Inl IndexError)"

text \<open>\<^verbatim>\<open>list(range(a, b))\<close> on Python integers: \<open>a, a+1, ..., b-1\<close>, empty when \<open>b \<le> a\<close>.\<close>

definition py_range :: "int \<Rightarrow> int \<Rightarrow> int list" where
  "py_range a b = [a..b - 1]"

text \<open>
  The element type of a numpy array is tracked where it decides whether the code
  raises: \<^verbatim>\<open>range\<close> accepts a \<^verbatim>\<open>numpy.int64\<close> and rejects a \<^verbatim>\<open>numpy.float64\<close>
  with \<^verbatim>\<open>TypeError\<close>. The numbers stored are integers in both cases.
\<close>

datatype np_dtype = np_int64 | np_float64

text \<open>
  \<^verbatim>\<open>np.insert(xs, 0, [0])\<close> on a Python list \<open>xs\<close> of integers. numpy converts \<open>xs\<close> with
  \<^verbatim>\<open>asarray\<close> and the result has that array's element type: \<^verbatim>\<open>int64\<close> for a non-empty
  list of integers, \<^verbatim>\<open>float64\<close> for the empty list (the result is then \<^verbatim>\<open>array([0.])\<close>).
\<close>

definition np_insert0 :: "int list \<Rightarrow> np_dtype \<times> int list" where
  "np_insert0 xs = (if xs = [] then np_float64 else np_int64, 0 # xs)"

text \<open>
  \<^verbatim>\<open>np.concatenate(xss)\<close> on a Python list of lists of integers: \<^verbatim>\<open>ValueError\<close>
  (need at least one array to concatenate) on the empty list, else the lists end to end.
  The element type of the result is not tracked.
\<close>

definition np_concatenate :: "'a list list \<Rightarrow> error + 'a list" where
  "np_concatenate xss = (if xss = [] then Inl ValueError else Inr (concat xss))"

text \<open>
  \<^verbatim>\<open>ConcatDataset.cumsum\<close> of torch, which fills \<^verbatim>\<open>cumulative_sizes\<close> (a Python list)
  from the lengths of the concatenated datasets.
\<close>

fun cumsum_from :: "int \<Rightarrow> nat list \<Rightarrow> int list" where
  "cumsum_from s [] = []"
| "cumsum_from s (l # ls) = (int l + s) # cumsum_from (int l + s) ls"

definition cumsum :: "nat list \<Rightarrow> int list" where
  "cumsum sizes = cumsum_from 0 sizes"

section \<open>The recording-level metadata table\<close>

text \<open>
  A pandas DataFrame as far as \<^verbatim>\<open>split\<close> reads it: the row labels (\<^verbatim>\<open>df.index\<close>) and the
  named columns, each with one value per row. The values of a column are of a type
  with a linear order and without a missing value (no \<^verbatim>\<open>NaN\<close>).
\<close>

record 'v dataframe =
  df_index :: "int list"
  df_columns :: "(string \<times> 'v list) list"

text \<open>\<^verbatim>\<open>name in df\<close>: membership among the column names; \<^verbatim>\<open>None in df\<close> is false.\<close>

definition df_contains :: "'v dataframe \<Rightarrow> string option \<Rightarrow> bool" where
  "df_contains df name =
     (case name of None \<Rightarrow> False | Some f \<Rightarrow> f \<in> set (map fst (df_columns df)))"

text \<open>
  \<^verbatim>\<open>df.groupby(name)\<close>, iterated: one \<open>(group_name, group)\<close> per distinct value of the
  column, in increasing order of the values; the group is given by the labels of its
  rows (\<^verbatim>\<open>group.index\<close>), in row order. A missing column raises \<^verbatim>\<open>KeyError\<close>.
\<close>

definition groupby :: "('v::linorder) dataframe \<Rightarrow> string option \<Rightarrow> error + ('v \<times> int list) list" where
  "groupby df name =
     (case name of None \<Rightarrow> Inl TypeError
      | Some f \<Rightarrow>
        (case map_of (df_columns df) f of None \<Rightarrow> Inl KeyError
         | Some vs \<Rightarrow>
             Inr (map (\<lambda>k. (k, map fst (filter (\<lambda>lv. snd lv = k) (zip (df_index df) vs))))
                      (sort (remdups vs)))))"

text \<open>
  The frame \<^verbatim>\<open>MOABBDataset.__init__\<close> stores in \<^verbatim>\<open>self.info\<close>: built by
  \<^verbatim>\<open>_fetch_and_unpack_moabb_data\<close> without an explicit index, so the row labels are
  \<open>0, 1, ..., n-1\<close>, one row per recording.
\<close>

definition moabb_info :: "'v dataframe \<Rightarrow> nat \<Rightarrow> bool" where
  "moabb_info df n \<longleftrightarrow>
     df_index df = map int [0..<n] \<and> (\<forall>c \<in> set (df_columns df). length (snd c) = n)"

section \<open>Splitting a concatenated dataset\<close>

text \<open>
  A split is named by a value of the grouping column or by its position in the list of
  explicit groups.
\<close>

datatype 'v split_name = GroupName 'v | Position nat

text \<open>
  A Python dict is an association list in insertion order; \<^verbatim>\<open>d[k] = v\<close> and
  \<^verbatim>\<open>d.update({k: v})\<close> are \<^const>\<open>AList.update\<close>.
\<close>

text \<open>
  \<^verbatim>\<open>_supercrop_ids_of_windows\<close>. The loop body evaluates \<^verbatim>\<open>i_starts[i_window]\<close>, then
  \<^verbatim>\<open>i_stops[i_window]\<close>, then \<^verbatim>\<open>range\<close> of the two, and appends the list to
  \<^verbatim>\<open>i_per_window\<close>.
\<close>

fun i_per_window_loop ::
  "np_dtype \<times> int list \<Rightarrow> int list \<Rightarrow> int list \<Rightarrow> int list list \<Rightarrow> error + int list list" where
  "i_per_window_loop i_starts i_stops [] i_per_window = Inr i_per_window"
| "i_per_window_loop i_starts i_stops (i_window # rest) i_per_window =
     (case py_index (snd i_starts) i_window of
        Inl e \<Rightarrow> Inl e
      | Inr a \<Rightarrow>
        (case py_index i_stops i_window of
           Inl e \<Rightarrow> Inl e
         | Inr b \<Rightarrow>
           if fst i_starts = np_float64 then Inl TypeError
           else i_per_window_loop i_starts i_stops rest (i_per_window @ [py_range a b])))"

definition supercrop_ids_of_windows :: "int list \<Rightarrow> int list \<Rightarrow> error + int list" where
  "supercrop_ids_of_windows cumulative_sizes windows_is =
     (let i_stops = cumulative_sizes;
          i_starts = np_insert0 (butlast cumulative_sizes)
      in case i_per_window_loop i_starts i_stops windows_is [] of
           Inl e \<Rightarrow> Inl e
         | Inr i_per_window \<Rightarrow> np_concatenate i_per_window)"

text \<open>\<^verbatim>\<open>_windows_dataset_ids_to_supercrop_ids\<close>: the loop over \<^verbatim>\<open>dataset_ids.items()\<close>.\<close>

fun supercrop_ids_loop ::
  "('k \<times> int list) list \<Rightarrow> int list \<Rightarrow> ('k \<times> int list) list \<Rightarrow> error + ('k \<times> int list) list" where
  "supercrop_ids_loop [] cumulative_sizes supercrop_ids = Inr supercrop_ids"
| "supercrop_ids_loop ((split_name, windows_is) # rest) cumulative_sizes supercrop_ids =
     (case supercrop_ids_of_windows cumulative_sizes windows_is of
        Inl e \<Rightarrow> Inl e
      | Inr this_supercrop_ids \<Rightarrow>
          supercrop_ids_loop rest cumulative_sizes
            (AList.update split_name this_supercrop_ids supercrop_ids))"

definition windows_dataset_ids_to_supercrop_ids ::
  "('k \<times> int list) list \<Rightarrow> int list \<Rightarrow> error + ('k \<times> int list) list" where
  "windows_dataset_ids_to_supercrop_ids dataset_ids cumulative_sizes =
     supercrop_ids_loop dataset_ids cumulative_sizes []"

text \<open>\<^verbatim>\<open>_split_ids\<close>: the assertion, then one dict entry per group.\<close>

definition split_ids :: "('v::linorder) dataframe \<Rightarrow> string option \<Rightarrow> error + ('v \<times> int list) list" where
  "split_ids df some_property =
     (if \<not> df_contains df some_property then Inl AssertionError
      else case groupby df some_property of
             Inl e \<Rightarrow> Inl e
           | Inr groups \<Rightarrow> Inr (fold (\<lambda>(group_name, group). AList.update group_name group) groups []))"

text \<open>
  The concatenated dataset as \<^verbatim>\<open>split\<close> reads it: \<^verbatim>\<open>cumulative_sizes\<close> and \<^verbatim>\<open>info\<close>.
\<close>

record 'v concat_dataset =
  cumulative_sizes :: "int list"
  info :: "'v dataframe"

text \<open>\<^verbatim>\<open>enumerate\<close> of a Python list.\<close>

definition enumerate_list :: "'a list \<Rightarrow> (nat \<times> 'a) list" where
  "enumerate_list xs = zip [0..<length xs] xs"

text \<open>
  \<^verbatim>\<open>MOABBDataset.split\<close> (and the identical \<^verbatim>\<open>TUHAbnormal.split\<close>). The second
  argument of the source is called \<^verbatim>\<open>split_ids\<close>; it is \<open>ids\<close> here. The two dict
  comprehensions keep the keys they read, which are distinct, so each is a map over
  the entries. A view \<^verbatim>\<open>Subset(self, split)\<close> is given by its index sequence.
\<close>

definition MOABBDataset_split ::
  "('v::linorder) concat_dataset \<Rightarrow> string option \<Rightarrow> int list list option \<Rightarrow>
     error + ('v split_name \<times> int list) list" where
  "MOABBDataset_split self some_property ids =
     (if \<not> (ids = None \<or> some_property = None) then Inl AssertionError
      else
        case (case ids of
                None \<Rightarrow>
                  (case split_ids (info self) some_property of
                     Inl e \<Rightarrow> Inl e
                   | Inr d \<Rightarrow> Inr (map (\<lambda>(k, g). (GroupName k, g)) d))
              | Some groups \<Rightarrow>
                  Inr (map (\<lambda>(split_i, split). (Position split_i, split)) (enumerate_list groups)))
        of Inl e \<Rightarrow> Inl e
         | Inr dataset_ids \<Rightarrow>
             windows_dataset_ids_to_supercrop_ids dataset_ids (cumulative_sizes self))"

section \<open>The windows of one recording\<close>

text \<open>
  Modelled from the spec: the window collection that a windower returns (the windowers
  of \<^verbatim>\<open>datautil/windowers.py\<close> are not among the sources; they return an
  \<^verbatim>\<open>mne.Epochs\<close> object). The collection holds, per window, a signal, a label and a
  metadata row with the three positional fields, retrievable by position. It is given
  here by the three tables \<^verbatim>\<open>WindowsDataset\<close> reads: the last column of \<^verbatim>\<open>events\<close>
  (the label of each window), the columns \<^verbatim>\<open>i_supercrop_in_trial\<close>,
  \<^verbatim>\<open>i_start_in_trial\<close>, \<^verbatim>\<open>i_stop_in_trial\<close> of \<^verbatim>\<open>metadata\<close>, and the signal of each
  window. All three are indexed by position with one integer, as \<^const>\<open>py_index\<close> does.
\<close>

record 'x window_collection =
  events :: "int list"
  metadata :: "(int \<times> int \<times> int) list"
  data :: "'x list"

text \<open>
  \<^verbatim>\<open>WindowsDataset.__getitem__\<close>: the metadata row is read first, then the signal, then
  the target. The three-element list \<^verbatim>\<open>info\<close> is the triple \<open>info_row\<close>.
\<close>

definition WindowsDataset_getitem ::
  "'x window_collection \<Rightarrow> int \<Rightarrow> error + ('x \<times> int \<times> (int \<times> int \<times> int))" where
  "WindowsDataset_getitem windows index =
     (let target = events windows in
      case py_index (metadata windows) index of
        Inl e \<Rightarrow> Inl e
      | Inr info_row \<Rightarrow>
        (case py_index (data windows) index of
           Inl e \<Rightarrow> Inl e
         | Inr x \<Rightarrow>
           (case py_index target index of
              Inl e \<Rightarrow> Inl e
            | Inr t \<Rightarrow> Inr (x, t, info_row))))"

definition WindowsDataset_len :: "'x window_collection \<Rightarrow> nat" where
  "WindowsDataset_len windows = length (events windows)"

text \<open>The tables of an \<^verbatim>\<open>mne.Epochs\<close> object have one row per window.\<close>

definition aligned :: "'x window_collection \<Rightarrow> bool" where
  "aligned windows \<longleftrightarrow>
     length (metadata windows) = length (events windows) \<and>
     length (data windows) = length (events windows)"

section \<open>Batches\<close>

text \<open>
  A batch element is an array of rows. A torch tensor has an element type and the
  methods \<^verbatim>\<open>type\<close> and \<^verbatim>\<open>cpu\<close>; any other array (a numpy array, a list) has neither.
  \<^verbatim>\<open>x.type(d)\<close> gives a tensor of element type \<open>d\<close> with the same rows; the rounding of
  the stored numbers is not modelled.
\<close>

datatype dtype = Float32 | Float64 | Int32 | Int64

datatype 'r arr = Tensor dtype "'r list" | NoType "'r list"

fun has_type :: "'r arr \<Rightarrow> bool" where
  "has_type (Tensor d rs) = True"
| "has_type (NoType rs) = False"

fun arr_type :: "dtype \<Rightarrow> 'r arr \<Rightarrow> error + 'r arr" where
  "arr_type d (Tensor d0 rs) = Inr (Tensor d rs)"
| "arr_type d (NoType rs) = Inl AttributeError"

fun cpu_numpy :: "'r arr \<Rightarrow> error + 'r list" where
  "cpu_numpy (Tensor d rs) = Inr rs"
| "cpu_numpy (NoType rs) = Inl AttributeError"

fun rows :: "'r arr \<Rightarrow> 'r list" where
  "rows (Tensor d rs) = rs"
| "rows (NoType rs) = rs"

text \<open>
  A batch of the underlying loader has two elements \<open>(x, y)\<close> or three \<open>(x, y, i)\<close>,
  as the datasets of this repository and of skorch produce them.
\<close>

datatype ('x, 'y, 'i) batch = Batch2 "'x arr" "'y arr" | Batch3 "'x arr" "'y arr" 'i

fun len_batch :: "('x, 'y, 'i) batch \<Rightarrow> nat" where
  "len_batch (Batch2 x y) = 2"
| "len_batch (Batch3 x y i) = 3"

fun batch_x :: "('x, 'y, 'i) batch \<Rightarrow> 'x arr" where
  "batch_x (Batch2 x y) = x"
| "batch_x (Batch3 x y i) = x"

fun batch_y :: "('x, 'y, 'i) batch \<Rightarrow> 'y arr" where
  "batch_y (Batch2 x y) = y"
| "batch_y (Batch3 x y i) = y"

section \<open>The classifier and its loader\<close>

text \<open>
  A scoring callback as \<^verbatim>\<open>on_batch_end\<close> reads it: the name of its class, the list
  \<^verbatim>\<open>supercrop_inds_\<close> when the object has that attribute, and \<^verbatim>\<open>on_train\<close>.
  The class \<^verbatim>\<open>CroppedTrialEpochScoring\<close> is not among the sources; \<^verbatim>\<open>on_batch_end\<close>
  reads these three attributes and no other. Callbacks are objects: the classifier's
  list \<^verbatim>\<open>callbacks\<close> holds references, and the same object may be registered under
  two names.
\<close>

record 'i callback =
  class_name :: string
  supercrop_inds :: "'i list option"
  on_train :: bool

datatype 'i cb_ref = Fresh "'i callback" | Ref nat

text \<open>
  The classifier: the attribute \<^verbatim>\<open>_last_supercrop_inds\<close> when it is set, the registered
  callbacks \<open>(name, reference)\<close>, and the objects the references point to.
\<close>

record 'i net =
  last_supercrop_inds :: "'i option"
  callbacks :: "(string \<times> nat) list"
  objects :: "nat \<Rightarrow> 'i callback"

text \<open>
  \<^verbatim>\<open>_default_callbacks\<close>: four objects made anew at each access. \<^verbatim>\<open>EpochTimer\<close> and
  \<^verbatim>\<open>PrintLog\<close> have no \<^verbatim>\<open>on_train\<close>; the field is never read for them, since the test
  of the class name comes first.
\<close>

definition default_callbacks :: "(string \<times> 'i callback) list" where
  "default_callbacks =
     [(''epoch_timer'', \<lparr>class_name = ''EpochTimer'', supercrop_inds = None, on_train = False\<rparr>),
      (''train_loss'', \<lparr>class_name = ''BatchScoring'', supercrop_inds = None, on_train = True\<rparr>),
      (''valid_loss'', \<lparr>class_name = ''BatchScoring'', supercrop_inds = None, on_train = False\<rparr>),
      (''print_log'', \<lparr>class_name = ''PrintLog'', supercrop_inds = None, on_train = False\<rparr>)]"

fun deref :: "'i net \<Rightarrow> 'i cb_ref \<Rightarrow> 'i callback" where
  "deref self (Fresh cb) = cb"
| "deref self (Ref a) = objects self a"

text \<open>The test of the loop in \<^verbatim>\<open>on_batch_end\<close>.\<close>

definition is_epoch_cb :: "'i callback \<Rightarrow> bool" where
  "is_epoch_cb cb \<longleftrightarrow>
     class_name cb = ''CroppedTrialEpochScoring'' \<and> supercrop_inds cb \<noteq> None \<and> on_train cb = False"

text \<open>\<^verbatim>\<open>cb.supercrop_inds_.append(i)\<close> on the object behind a reference.\<close>

fun append_inds :: "'i \<Rightarrow> 'i cb_ref \<Rightarrow> 'i net \<Rightarrow> 'i net" where
  "append_inds i (Fresh cb) self = self"
| "append_inds i (Ref a) self =
     self\<lparr>objects := (objects self)
            (a := (objects self a)\<lparr>supercrop_inds :=
                     map_option (\<lambda>log. log @ [i]) (supercrop_inds (objects self a))\<rparr>)\<rparr>"

definition epoch_cbs :: "'i net \<Rightarrow> 'i cb_ref list" where
  "epoch_cbs self =
     filter (\<lambda>cb. is_epoch_cb (deref self cb))
       (map snd (map (\<lambda>(name, cb). (name, Fresh cb)) default_callbacks @
                 map (\<lambda>(name, a). (name, Ref a)) (callbacks self)))"

text \<open>
  \<^verbatim>\<open>EEGClassifier.on_batch_end\<close>; the arguments \<^verbatim>\<open>net\<close>, \<^verbatim>\<open>X\<close> and \<^verbatim>\<open>y\<close> are not read.
\<close>

definition EEGClassifier_on_batch_end :: "'i net \<Rightarrow> bool \<Rightarrow> error + 'i net" where
  "EEGClassifier_on_batch_end self training =
     (if \<not> training then
        (if length (epoch_cbs self) > 0 then
           (case last_supercrop_inds self of
              None \<Rightarrow> Inl AssertionError
            | Some i \<Rightarrow>
                Inr ((fold (append_inds i) (epoch_cbs self) self)\<lparr>last_supercrop_inds := None\<rparr>))
         else Inr self)
      else Inr self)"

text \<open>
  One turn of the loop of \<^verbatim>\<open>ThrowAwayIndexLoader.__iter__\<close>, up to the \<^verbatim>\<open>yield\<close>:
  the classifier as the turn leaves it, and the batch yielded or the exception raised.
\<close>

definition loader_body ::
  "'i net \<Rightarrow> ('x, 'y, 'i) batch \<Rightarrow> 'i net \<times> (error + ('x, 'y, 'i) batch)" where
  "loader_body net b =
     (let (x, y, net') =
            (case b of
               Batch3 x y i \<Rightarrow> (x, y, net\<lparr>last_supercrop_inds := Some i\<rparr>)
             | Batch2 x y \<Rightarrow> (x, y, net))
      in if has_type x then
           (case arr_type Float32 x of
              Inl e \<Rightarrow> (net', Inl e)
            | Inr x' \<Rightarrow>
              (case arr_type Int64 y of
                 Inl e \<Rightarrow> (net', Inl e)
               | Inr y' \<Rightarrow> (net', Inr (Batch2 x' y'))))
         else (net', Inr (Batch2 x y)))"

text \<open>
  The whole iteration, when nothing else touches the classifier between two turns: the
  batches yielded, the classifier at the end, and the exception that ended the
  iteration, if one did.
\<close>

fun ThrowAwayIndexLoader_iter ::
  "'i net \<Rightarrow> ('x, 'y, 'i) batch list \<Rightarrow> ('x, 'y, 'i) batch list \<times> 'i net \<times> error option" where
  "ThrowAwayIndexLoader_iter net [] = ([], net, None)"
| "ThrowAwayIndexLoader_iter net (b # normal_iter) =
     (case loader_body net b of
        (net', Inl e) \<Rightarrow> ([], net', Some e)
      | (net', Inr out) \<Rightarrow>
          (case ThrowAwayIndexLoader_iter net' normal_iter of
             (outs, net'', err) \<Rightarrow> (out # outs, net'', err)))"

text \<open>
  \<^verbatim>\<open>EEGClassifier.get_iterator\<close>. \<open>iterator\<close> is the stream of batches of the loader
  that \<^verbatim>\<open>super().get_iterator(dataset, training=training)\<close> returns.
\<close>

definition EEGClassifier_get_iterator ::
  "'i net \<Rightarrow> ('x, 'y, 'i) batch list \<Rightarrow> bool \<Rightarrow> ('x, 'y, 'i) batch list \<times> 'i net \<times> error option" where
  "EEGClassifier_get_iterator self iterator drop_index =
     (if drop_index then ThrowAwayIndexLoader_iter self iterator
      else (iterator, self, None))"

section \<open>Prediction with provenance\<close>

record ('pr, 'y) prediction =
  preds :: "'pr list"
  i_supercrop_in_trials :: "int list"
  i_supercrop_stops :: "int list"
  supercrop_ys :: "'y list"

text \<open>
  The loop of \<^verbatim>\<open>predict_with_supercrop_inds_and_ys\<close>. Unpacking a batch of two
  elements into \<^verbatim>\<open>X, y, i\<close> raises \<^verbatim>\<open>ValueError\<close>. \<open>predict_proba\<close> is the trainer's
  method, a parameter here.
\<close>

fun predict_loop ::
  "('x arr \<Rightarrow> 'pr list) \<Rightarrow> ('x, 'y, int arr list) batch list \<Rightarrow>
     'pr list list \<times> int list list \<times> int list list \<times> 'y list list \<Rightarrow>
     error + ('pr list list \<times> int list list \<times> int list list \<times> 'y list list)" where
  "predict_loop predict_proba [] acc = Inr acc"
| "predict_loop predict_proba (Batch2 X y # rest) acc = Inl ValueError"
| "predict_loop predict_proba (Batch3 X y i # rest) (ps, ins, stops, ys) =
     (case py_index i 0 of
        Inl e \<Rightarrow> Inl e
      | Inr i0 \<Rightarrow>
        (case cpu_numpy i0 of
           Inl e \<Rightarrow> Inl e
         | Inr a0 \<Rightarrow>
           (case py_index i 2 of
              Inl e \<Rightarrow> Inl e
            | Inr i2 \<Rightarrow>
              (case cpu_numpy i2 of
                 Inl e \<Rightarrow> Inl e
               | Inr a2 \<Rightarrow>
                 (case cpu_numpy y of
                    Inl e \<Rightarrow> Inl e
                  | Inr ay \<Rightarrow>
                      predict_loop predict_proba rest
                        (ps @ [predict_proba X], ins @ [a0], stops @ [a2], ys @ [ay]))))))"

definition EEGClassifier_predict_with_supercrop_inds_and_ys ::
  "int arr list net \<Rightarrow> ('x arr \<Rightarrow> 'pr list) \<Rightarrow> ('x, 'y, int arr list) batch list \<Rightarrow>
     error + ('pr, 'y) prediction" where
  "EEGClassifier_predict_with_supercrop_inds_and_ys self predict_proba iterator =
     (case EEGClassifier_get_iterator self iterator False of
        (batches, _, Some e) \<Rightarrow> Inl e
      | (batches, _, None) \<Rightarrow>
        (case predict_loop predict_proba batches ([], [], [], []) of
           Inl e \<Rightarrow> Inl e
         | Inr (ps, ins, stops, ys) \<Rightarrow>
           (case np_concatenate ps of
              Inl e \<Rightarrow> Inl e
            | Inr p \<Rightarrow>
              (case np_concatenate ins of
                 Inl e \<Rightarrow> Inl e
               | Inr a \<Rightarrow>
                 (case np_concatenate stops of
                    Inl e \<Rightarrow> Inl e
                  | Inr b \<Rightarrow>
                    (case np_concatenate ys of
                       Inl e \<Rightarrow> Inl e
                     | Inr c \<Rightarrow>
                         Inr \<lparr>preds = p, i_supercrop_in_trials = a,
                              i_supercrop_stops = b, supercrop_ys = c\<rparr>))))))"

section \<open>The underlying loader\<close>

text \<open>
  A torch \<^verbatim>\<open>DataLoader\<close> over a dataset whose items are \<open>(x, y, info)\<close>, as
  \<^verbatim>\<open>WindowsDataset.__getitem__\<close> returns them. Its sampler gives the order in which
  the items are visited (\<open>0, 1, ..., n-1\<close> when it does not shuffle, a permutation when it
  does); the order is cut into runs of \<open>batch_size\<close> indices, the last one possibly
  shorter, and each run is collated into one batch of three elements: the stacked
  inputs, the targets, and one tensor per entry of \<^verbatim>\<open>info\<close>. The batch size is
  positive (torch refuses any other when the loader is built).
\<close>

function chunks :: "nat \<Rightarrow> 'a list \<Rightarrow> 'a list list" where
  "chunks n xs = (if n = 0 \<or> xs = [] then [] else take n xs # chunks n (drop n xs))"
  by pat_completeness auto
termination
  by (relation "measure (\<lambda>(n, xs). length xs)") auto

type_synonym 'x item = "'x \<times> int \<times> (int \<times> int \<times> int)"

definition item_x :: "'x item \<Rightarrow> 'x" where
  "item_x it = fst it"

definition item_y :: "'x item \<Rightarrow> int" where
  "item_y it = fst (snd it)"

definition item_i_supercrop_in_trial :: "'x item \<Rightarrow> int" where
  "item_i_supercrop_in_trial it = fst (snd (snd it))"

definition item_i_start_in_trial :: "'x item \<Rightarrow> int" where
  "item_i_start_in_trial it = fst (snd (snd (snd it)))"

definition item_i_stop_in_trial :: "'x item \<Rightarrow> int" where
  "item_i_stop_in_trial it = snd (snd (snd (snd it)))"

definition collate :: "'x item list \<Rightarrow> ('x, int, int arr list) batch" where
  "collate its =
     Batch3 (Tensor Float64 (map item_x its)) (Tensor Int64 (map item_y its))
       [Tensor Int64 (map item_i_supercrop_in_trial its),
        Tensor Int64 (map item_i_start_in_trial its),
        Tensor Int64 (map item_i_stop_in_trial its)]"

definition data_loader :: "nat list \<Rightarrow> nat \<Rightarrow> 'x item list \<Rightarrow> ('x, int, int arr list) batch list" where
  "data_loader sampler batch_size dataset =
     map (\<lambda>run. collate (map (\<lambda>k. dataset ! k) run)) (chunks batch_size sampler)"

definition sequential_sampler :: "'a list \<Rightarrow> nat list" where
  "sequential_sampler dataset = [0..<length dataset]"

section \<open>The index range of a recording\<close>

text \<open>
  The notions the properties of \<^verbatim>\<open>split\<close> are stated with. \<open>window_start cum k\<close> is
  \<^verbatim>\<open>cumulative_sizes[k-1]\<close>, read as \<open>0\<close> for the first recording, so that the windows
  of recording \<open>k\<close> have the global indices from \<open>window_start cum k\<close> up to, and not
  including, \<open>cum ! k\<close>; \<open>ranges_of cum g\<close> is these ranges end to end for the
  recordings listed in \<open>g\<close>. \<open>prefix_sum sizes k\<close> is the number of windows of the first
  \<open>k\<close> recordings, and \<open>rows_of vs v\<close> are the positions at which the column \<open>vs\<close>
  holds the value \<open>v\<close>.
\<close>

definition window_start :: "int list \<Rightarrow> int \<Rightarrow> int" where
  "window_start cum k = (if k = 0 then 0 else cum ! (nat k - 1))"

definition ranges_of :: "int list \<Rightarrow> int list \<Rightarrow> int list" where
  "ranges_of cum g = concat (map (\<lambda>k. py_range (window_start cum k) (cum ! nat k)) g)"

definition prefix_sum :: "nat list \<Rightarrow> nat \<Rightarrow> int" where
  "prefix_sum sizes k = int (sum_list (take k sizes))"

definition rows_of :: "'v list \<Rightarrow> 'v \<Rightarrow> int list" where
  "rows_of vs v = map fst (filter (\<lambda>lv. snd lv = v) (zip (map int [0..<length vs]) vs))"

section \<open>Concrete inputs\<close>

text \<open>One recording of five windows, with its one metadata row.\<close>

definition one_recording :: "string concat_dataset" where
  "one_recording =
     \<lparr>cumulative_sizes = cumsum [5],
      info = \<lparr>df_index = [0], df_columns = [(''session'', [''train''])]\<rparr>\<rparr>"

text \<open>Three recordings of five, three and two windows.\<close>

definition three_recordings :: "string concat_dataset" where
  "three_recordings =
     \<lparr>cumulative_sizes = cumsum [5, 3, 2],
      info = \<lparr>df_index = [0, 1, 2],
              df_columns = [(''subject'', [''1'', ''1'', ''1'']),
                            (''session'', [''train'', ''train'', ''eval''])]\<rparr>\<rparr>"

text \<open>One recording cut into three windows.\<close>

definition three_windows :: "string window_collection" where
  "three_windows =
     \<lparr>events = [1, 2, 1],
      metadata = [(0, 0, 100), (1, 50, 150), (2, 100, 200)],
      data = [''w0'', ''w1'', ''w2'']\<rparr>"

text \<open>
  A classifier with two scoring callbacks of the cropped kind: the object at \<open>0\<close> scores
  on validation data, the object at \<open>1\<close> on training data. No provenance is pending.
\<close>

definition scoring_net :: "'i net" where
  "scoring_net =
     \<lparr>last_supercrop_inds = None,
      callbacks = [(''valid_accuracy'', 0), (''train_accuracy'', 1)],
      objects = (\<lambda>a. if a = 0
                     then \<lparr>class_name = ''CroppedTrialEpochScoring'', supercrop_inds = Some [],
                           on_train = False\<rparr>
                     else \<lparr>class_name = ''CroppedTrialEpochScoring'', supercrop_inds = Some [],
                           on_train = True\<rparr>)\<rparr>"

text \<open>The provenance of a batch of one window, and the stream \<open>[(x0, y0, p0), (x1, y1)]\<close>.\<close>

definition p0 :: "int arr list" where
  "p0 = [Tensor Int64 [0], Tensor Int64 [0], Tensor Int64 [100]]"

definition scenario_stream :: "(string, int, int arr list) batch list" where
  "scenario_stream =
     [Batch3 (Tensor Float64 [''x0'']) (Tensor Int32 [1]) p0,
      Batch2 (Tensor Float64 [''x1'']) (Tensor Int32 [0])]"

text \<open>A stream of one batch whose elements are not tensors.\<close>

definition plain_stream :: "(string, int, int arr list) batch list" where
  "plain_stream = [Batch2 (NoType [''x0'']) (NoType [1])]"

text \<open>A dataset of two windows, and a trainer that returns its input rows as predictions.\<close>

definition two_windows :: "string item list" where
  "two_windows = [(''w0'', 1, (0, 0, 100)), (''w1'', 0, (1, 50, 150))]"

definition echo_proba :: "string arr \<Rightarrow> string list" where
  "echo_proba X = rows X"

section \<open>Properties of indexing\<close>

lemma py_index_nonneg: "0 \<le> i \<Longrightarrow> i < int (length xs) \<Longrightarrow> py_index xs i = Inr (xs ! nat i)"
  by (simp add: py_index_def)

lemma py_index_out:
  "i < - int (length xs) \<or> int (length xs) \<le> i \<Longrightarrow> py_index xs i = Inl IndexError"
  by (auto simp: py_index_def)

section \<open>Properties of \<^verbatim>\<open>WindowsDataset\<close>\<close>

text \<open>
  Claim C8, as the code has it. \<^verbatim>\<open>WindowsDataset.__getitem__\<close> has no bounds check of
  its own and indexes the three tables the way Python does: an index \<open>j\<close> with
  \<open>0 \<le> j < len\<close> returns window \<open>j\<close>, an index with \<open>-len \<le> j < 0\<close> returns window
  \<open>len + j\<close> (counted from the end), and every other index raises \<^verbatim>\<open>IndexError\<close>;
  no index is clamped.
\<close>

theorem getitem_python_indexing:
  assumes "aligned windows"
  shows "(0 \<le> j \<and> j < int (WindowsDataset_len windows) \<longrightarrow>
            WindowsDataset_getitem windows j =
              Inr (data windows ! nat j, events windows ! nat j, metadata windows ! nat j)) \<and>
         (- int (WindowsDataset_len windows) \<le> j \<and> j < 0 \<longrightarrow>
            WindowsDataset_getitem windows j =
              Inr (data windows ! nat (int (WindowsDataset_len windows) + j),
                   events windows ! nat (int (WindowsDataset_len windows) + j),
                   metadata windows ! nat (int (WindowsDataset_len windows) + j))) \<and>
         (j < - int (WindowsDataset_len windows) \<or> int (WindowsDataset_len windows) \<le> j \<longrightarrow>
            WindowsDataset_getitem windows j = Inl IndexError)"
  using assms
  by (auto simp: aligned_def WindowsDataset_getitem_def WindowsDataset_len_def py_index_def Let_def)

theorem getitem_python_indexing_witness:
  "aligned three_windows \<and>
   WindowsDataset_getitem three_windows 1 = Inr (''w1'', 2, (1, 50, 150)) \<and>
   WindowsDataset_getitem three_windows (- 2) = Inr (''w1'', 2, (1, 50, 150)) \<and>
   WindowsDataset_getitem three_windows 3 = Inl IndexError \<and>
   WindowsDataset_getitem three_windows (- 4) = Inl IndexError"
proof -
  have a: "aligned three_windows"
    by (simp add: aligned_def three_windows_def)
  show ?thesis
    using a getitem_python_indexing [OF a, of 1] getitem_python_indexing [OF a, of "- 2"]
      getitem_python_indexing [OF a, of 3] getitem_python_indexing [OF a, of "- 4"]
    by (simp add: three_windows_def WindowsDataset_len_def)
qed

text \<open>
  Claim C8 as stated fails: on a dataset of three windows the index \<open>-1\<close> is outside
  \<open>[0, 3)\<close>, and \<^verbatim>\<open>__getitem__\<close> returns the last window instead of raising.
\<close>

theorem getitem_negative_index_counterexample:
  "WindowsDataset_len three_windows = 3 \<and>
   WindowsDataset_getitem three_windows (- 1) = Inr (''w2'', 1, (2, 100, 200))"
  by (simp add: WindowsDataset_getitem_def WindowsDataset_len_def three_windows_def py_index_def)

section \<open>Properties of \<^verbatim>\<open>split\<close>\<close>

lemma supercrop_ids_of_windows_Nil: "supercrop_ids_of_windows cum [] = Inl ValueError"
  by (simp add: supercrop_ids_of_windows_def np_concatenate_def)

text \<open>
  Claim C4 (a group with zero recording indices yields an empty view, not an error)
  fails on the code. For such a group the loop of \<^verbatim>\<open>_supercrop_ids_of_windows\<close> runs
  zero times, \<^verbatim>\<open>np.concatenate\<close> receives the empty list and raises \<^verbatim>\<open>ValueError\<close>;
  \<^verbatim>\<open>split\<close> with the one empty group \<open>[[]]\<close> raises it on every dataset.
\<close>

theorem split_empty_group_raises:
  "supercrop_ids_of_windows cum [] = Inl ValueError \<and>
   MOABBDataset_split self None (Some [[]]) = Inl ValueError"
  by (simp add: supercrop_ids_of_windows_Nil MOABBDataset_split_def enumerate_list_def
      windows_dataset_ids_to_supercrop_ids_def)

text \<open>
  No list of groups with an empty group gets a view for it: the call raises, for the
  empty group or for a group before it.
\<close>

lemma supercrop_ids_loop_fails:
  assumes "(name, ws) \<in> set ids" and "supercrop_ids_of_windows cum ws = Inl e"
  shows "\<exists>e'. supercrop_ids_loop ids cum acc = Inl e'"
  using assms
proof (induction ids arbitrary: acc)
  case Nil
  then show ?case by simp
next
  case (Cons p ids)
  obtain n w where p: "p = (n, w)" by (cases p)
  show ?case
  proof (cases "supercrop_ids_of_windows cum w")
    case (Inl e0)
    then show ?thesis by (simp add: p)
  next
    case (Inr r)
    with Cons.prems p have "(name, ws) \<in> set ids" by auto
    from Cons.IH [OF this Cons.prems(2)] show ?thesis by (simp add: p Inr)
  qed
qed

lemma split_with_empty_group_fails:
  assumes "[] \<in> set groups"
  shows "\<exists>e. MOABBDataset_split self None (Some groups) = Inl e"
proof -
  from assms obtain i where i: "i < length groups" "groups ! i = []"
    by (auto simp: in_set_conv_nth)
  let ?ids = "map (\<lambda>(split_i, split). (Position split_i :: 'a split_name, split)) (enumerate_list groups)"
  have "(i, []) \<in> set (enumerate_list groups)"
    using i unfolding enumerate_list_def set_zip by (intro CollectI exI [where x = i]) simp
  then have "(Position i, []) \<in> set ?ids" by force
  from supercrop_ids_loop_fails [OF this supercrop_ids_of_windows_Nil]
  show ?thesis
    by (simp add: MOABBDataset_split_def windows_dataset_ids_to_supercrop_ids_def)
qed

text \<open>
  Claim C5. \<^verbatim>\<open>split\<close> raises \<^verbatim>\<open>AssertionError\<close> (its error for a wrong configuration)
  and produces no splits when both arguments are given, when neither is given, and
  when the grouping field is not a column of the metadata table.
\<close>

theorem split_configuration_errors:
  "(some_property \<noteq> None \<and> ids \<noteq> None \<longrightarrow>
      MOABBDataset_split self some_property ids = Inl AssertionError) \<and>
   (some_property = None \<and> ids = None \<longrightarrow>
      MOABBDataset_split self some_property ids = Inl AssertionError) \<and>
   (\<forall>f. some_property = Some f \<and> ids = None \<and> f \<notin> set (map fst (df_columns (info self))) \<longrightarrow>
      MOABBDataset_split self some_property ids = Inl AssertionError)"
  by (auto simp: MOABBDataset_split_def split_ids_def df_contains_def)

theorem split_configuration_errors_witness:
  "MOABBDataset_split three_recordings (Some ''session'') (Some [[0]]) = Inl AssertionError \<and>
   MOABBDataset_split three_recordings None None = Inl AssertionError \<and>
   MOABBDataset_split three_recordings (Some ''age'') None = Inl AssertionError"
  using split_configuration_errors [of "Some ''session''" "Some [[0]]" three_recordings]
    split_configuration_errors [of None None three_recordings]
    split_configuration_errors [of "Some ''age''" None three_recordings]
  by (simp add: three_recordings_def)

subsection \<open>Splits of a dataset of at least two recordings\<close>

lemma i_per_window_loop_valid:
  assumes "\<forall>k \<in> set ws. 0 \<le> k \<and> k < int n" and "length starts = n" and "length stops = n"
  shows "i_per_window_loop (np_int64, starts) stops ws acc =
           Inr (acc @ map (\<lambda>k. py_range (starts ! nat k) (stops ! nat k)) ws)"
  using assms
proof (induction ws arbitrary: acc)
  case Nil
  then show ?case by simp
next
  case (Cons w ws)
  then have "0 \<le> w" "w < int (length starts)" "w < int (length stops)"
    by simp_all
  then show ?case
    using Cons by (simp add: py_index_nonneg)
qed

lemma starts_nth:
  assumes "0 \<le> k" and "k < int (length cum)"
  shows "(0 # butlast cum) ! nat k = window_start cum k"
proof (cases "k = 0")
  case True
  then show ?thesis by (simp add: window_start_def)
next
  case False
  with assms have "nat k - 1 < length (butlast cum)" by auto
  then have "butlast cum ! (nat k - 1) = cum ! (nat k - 1)"
    by (rule nth_butlast)
  moreover have "nat k \<noteq> 0" using False assms by simp
  ultimately show ?thesis using False by (simp add: window_start_def nth_Cons')
qed

lemma supercrop_ids_of_windows_valid:
  assumes two: "2 \<le> length cum" and ne: "ws \<noteq> []"
    and valid: "\<forall>k \<in> set ws. 0 \<le> k \<and> k < int (length cum)"
  shows "supercrop_ids_of_windows cum ws =
           Inr (concat (map (\<lambda>k. py_range (window_start cum k) (cum ! nat k)) ws))"
proof -
  have b: "butlast cum \<noteq> []"
    using two by (cases cum rule: rev_cases) auto
  have l: "length (0 # butlast cum) = length cum"
    using two by simp
  have m: "map (\<lambda>k. py_range ((0 # butlast cum) ! nat k) (cum ! nat k)) ws =
           map (\<lambda>k. py_range (window_start cum k) (cum ! nat k)) ws"
    using valid by (intro map_cong) (simp_all add: starts_nth del: nth_Cons_0)
  have "i_per_window_loop (np_int64, 0 # butlast cum) cum ws [] =
          Inr ([] @ map (\<lambda>k. py_range ((0 # butlast cum) ! nat k) (cum ! nat k)) ws)"
    using valid l by (intro i_per_window_loop_valid [where n = "length cum"]) simp_all
  then show ?thesis
    using b ne m by (simp add: supercrop_ids_of_windows_def np_insert0_def np_concatenate_def)
qed

lemma update_fresh: "k \<notin> fst ` set al \<Longrightarrow> AList.update k v al = al @ [(k, v)]"
  by (induction al) auto

lemma supercrop_ids_loop_distinct:
  assumes "distinct (map fst ids)" and "fst ` set ids \<inter> fst ` set acc = {}"
    and "\<forall>(name, ws) \<in> set ids. supercrop_ids_of_windows cum ws = Inr (F ws)"
  shows "supercrop_ids_loop ids cum acc = Inr (acc @ map (\<lambda>(name, ws). (name, F ws)) ids)"
  using assms
proof (induction ids arbitrary: acc)
  case Nil
  then show ?case by simp
next
  case (Cons p ids)
  obtain name ws where p: "p = (name, ws)" by (cases p)
  have f: "name \<notin> fst ` set acc" using Cons.prems(2) p by auto
  have s: "supercrop_ids_of_windows cum ws = Inr (F ws)" using Cons.prems(3) p by auto
  have d: "distinct (map fst ids)" using Cons.prems(1) by simp
  have i: "fst ` set ids \<inter> fst ` set (acc @ [(name, F ws)]) = {}"
    using Cons.prems(1,2) p by auto
  have r: "\<forall>(name, ws) \<in> set ids. supercrop_ids_of_windows cum ws = Inr (F ws)"
    using Cons.prems(3) by auto
  show ?case
    using Cons.IH [OF d i r] by (simp add: p s update_fresh [OF f])
qed

lemma fold_update_distinct:
  assumes "distinct (map fst groups)" and "fst ` set groups \<inter> fst ` set acc = {}"
  shows "fold (\<lambda>(group_name, group). AList.update group_name group) groups acc = acc @ groups"
  using assms
proof (induction groups arbitrary: acc)
  case Nil
  then show ?case by simp
next
  case (Cons p groups)
  obtain name g where p: "p = (name, g)" by (cases p)
  have f: "name \<notin> fst ` set acc" using Cons.prems(2) p by auto
  have d: "distinct (map fst groups)" using Cons.prems(1) by simp
  have i: "fst ` set groups \<inter> fst ` set (acc @ [(name, g)]) = {}"
    using Cons.prems(1,2) p by auto
  show ?case
    using Cons.IH [OF d i] by (simp add: p update_fresh [OF f])
qed

lemma enumerate_keys:
  "map fst (map (\<lambda>(split_i, split). (Position split_i :: 'v split_name, split)) (enumerate_list groups))
     = map Position [0..<length groups]"
proof -
  have "map fst (map (\<lambda>(split_i, split). (Position split_i :: 'v split_name, split)) xs)
        = map Position (map fst xs)" for xs :: "(nat \<times> 'b) list"
    by (induction xs) auto
  from this [of "zip [0..<length groups] groups"] show ?thesis
    by (simp add: enumerate_list_def)
qed

lemma enumerate_keys_distinct:
  "distinct (map fst (map (\<lambda>(split_i, split). (Position split_i :: 'v split_name, split)) (enumerate_list groups)))"
  unfolding enumerate_keys by (simp add: distinct_map inj_on_def)

lemma length_cumsum_from: "length (cumsum_from s ls) = length ls"
  by (induction ls arbitrary: s) simp_all

lemma cumsum_from_nth:
  "k < length ls \<Longrightarrow> cumsum_from s ls ! k = s + int (sum_list (take (Suc k) ls))"
proof (induction ls arbitrary: s k)
  case Nil
  then show ?case by simp
next
  case (Cons l ls)
  show ?case
  proof (cases k)
    case 0
    then show ?thesis by simp
  next
    case (Suc j)
    with Cons.prems have "j < length ls" by simp
    from Cons.IH [OF this, of "int l + s"] show ?thesis using Suc by simp
  qed
qed

lemma cumsum_nth: "k < length sizes \<Longrightarrow> cumsum sizes ! k = int (sum_list (take (Suc k) sizes))"
  by (simp add: cumsum_def cumsum_from_nth)

lemma length_cumsum: "length (cumsum sizes) = length sizes"
  by (simp add: cumsum_def length_cumsum_from)

lemma window_start_cumsum:
  assumes "0 \<le> k" and "k < int (length sizes)"
  shows "window_start (cumsum sizes) k = int (sum_list (take (nat k) sizes))"
proof (cases "k = 0")
  case True
  then show ?thesis by (simp add: window_start_def)
next
  case False
  with assms have "nat k - 1 < length sizes" "Suc (nat k - 1) = nat k" by auto
  then show ?thesis using False by (simp add: window_start_def cumsum_nth)
qed

lemma set_py_range: "set (py_range a b) = {a..<b}"
  by (auto simp: py_range_def)

lemma distinct_py_range: "distinct (py_range a b)"
  by (simp add: py_range_def)

lemma length_py_range: "a \<le> b \<Longrightarrow> length (py_range a b) = nat (b - a)"
  by (simp add: py_range_def)

lemma prefix_sum_Suc:
  "k < length sizes \<Longrightarrow> prefix_sum sizes (Suc k) = prefix_sum sizes k + int (sizes ! k)"
  by (simp add: prefix_sum_def take_Suc_conv_app_nth)

lemma prefix_sum_mono: "k \<le> k' \<Longrightarrow> prefix_sum sizes k \<le> prefix_sum sizes k'"
proof -
  assume "k \<le> k'"
  then have "take k' sizes = take k sizes @ take (k' - k) (drop k sizes)"
    by (metis le_add_diff_inverse take_add)
  then show ?thesis by (simp add: prefix_sum_def)
qed

lemma range_of_recording:
  assumes "0 \<le> k" and "k < int (length sizes)"
  shows "py_range (window_start (cumsum sizes) k) (cumsum sizes ! nat k) =
           py_range (prefix_sum sizes (nat k)) (prefix_sum sizes (Suc (nat k)))"
  using assms by (simp add: window_start_cumsum cumsum_nth prefix_sum_def)

lemma union_ranges: "(\<Union>k<n. {prefix_sum sizes k..<prefix_sum sizes (Suc k)}) = {0..<prefix_sum sizes n}"
proof (induction n)
  case 0
  then show ?case by (simp add: prefix_sum_def)
next
  case (Suc n)
  have a: "0 \<le> prefix_sum sizes n" by (simp add: prefix_sum_def)
  have b: "prefix_sum sizes n \<le> prefix_sum sizes (Suc n)" by (rule prefix_sum_mono) simp
  have "(\<Union>k<Suc n. {prefix_sum sizes k..<prefix_sum sizes (Suc k)}) =
        {0..<prefix_sum sizes n} \<union> {prefix_sum sizes n..<prefix_sum sizes (Suc n)}"
    using Suc.IH by (simp add: lessThan_Suc Un_commute)
  also have "\<dots> = {0..<prefix_sum sizes (Suc n)}"
    using a b by (rule ivl_disj_un)
  finally show ?case .
qed

lemma disjoint_ranges:
  assumes "k \<noteq> k'"
  shows "{prefix_sum sizes k..<prefix_sum sizes (Suc k)} \<inter>
         {prefix_sum sizes k'..<prefix_sum sizes (Suc k')} = {}"
proof -
  have d: "{prefix_sum sizes i..<prefix_sum sizes (Suc i)} \<inter>
         {prefix_sum sizes j..<prefix_sum sizes (Suc j)} = {}" if "i < j" for i j
  proof -
    have "prefix_sum sizes (Suc i) \<le> prefix_sum sizes j"
      using that by (intro prefix_sum_mono) simp
    then show ?thesis by auto
  qed
  from assms consider "k < k'" | "k' < k" by linarith
  then show ?thesis
  proof cases
    case 1
    then show ?thesis by (rule d)
  next
    case 2
    from d [OF this] show ?thesis by (simp add: Int_commute)
  qed
qed

text \<open>
  Split by explicit lists, on a dataset of at least two recordings, every list
  non-empty and every listed index a position of a recording: the splits are named
  \<open>0, 1, 2, ...\<close> in the order of the lists, and each holds the index ranges of its
  recordings end to end, in the order listed.
\<close>

lemma split_by_ids_ranges:
  assumes two: "2 \<le> length (cumulative_sizes self)"
    and valid: "\<forall>g \<in> set groups. g \<noteq> [] \<and>
                  (\<forall>k \<in> set g. 0 \<le> k \<and> k < int (length (cumulative_sizes self)))"
  shows "MOABBDataset_split self None (Some groups) =
     Inr (map (\<lambda>(j, g). (Position j, ranges_of (cumulative_sizes self) g)) (enumerate_list groups))"
proof -
  let ?cum = "cumulative_sizes self"
  let ?ids = "map (\<lambda>(split_i, split). (Position split_i :: 'a split_name, split)) (enumerate_list groups)"
  have d: "distinct (map fst ?ids)" by (rule enumerate_keys_distinct)
  have e: "fst ` set ?ids \<inter> fst ` set ([] :: ('a split_name \<times> int list) list) = {}" by simp
  have v: "\<forall>(name, ws) \<in> set ?ids. supercrop_ids_of_windows ?cum ws = Inr (ranges_of ?cum ws)"
  proof (clarify)
    fix name ws assume "(name, ws) \<in> set ?ids"
    then have "ws \<in> set groups"
      by (auto simp: enumerate_list_def dest: set_zip_rightD)
    with valid have "ws \<noteq> []" "\<forall>k \<in> set ws. 0 \<le> k \<and> k < int (length ?cum)" by auto
    with two show "supercrop_ids_of_windows ?cum ws = Inr (ranges_of ?cum ws)"
      unfolding ranges_of_def by (intro supercrop_ids_of_windows_valid)
  qed
  have "supercrop_ids_loop ?ids ?cum [] = Inr ([] @ map (\<lambda>(name, ws). (name, ranges_of ?cum ws)) ?ids)"
    using d e v by (rule supercrop_ids_loop_distinct)
  then show ?thesis
    by (simp add: MOABBDataset_split_def windows_dataset_ids_to_supercrop_ids_def
        case_prod_unfold comp_def)
qed

text \<open>The size of such a split is the sum of the window counts of the listed recordings.\<close>

lemma length_ranges_of:
  assumes "\<forall>k \<in> set g. 0 \<le> k \<and> k < int (length sizes)"
  shows "length (ranges_of (cumsum sizes) g) = sum_list (map (\<lambda>k. sizes ! nat k) g)"
  using assms
proof (induction g)
  case Nil
  then show ?case by (simp add: ranges_of_def)
next
  case (Cons k g)
  then have k: "0 \<le> k" "k < int (length sizes)" by simp_all
  then have n: "nat k < length sizes" by simp
  have "length (py_range (window_start (cumsum sizes) k) (cumsum sizes ! nat k)) = sizes ! nat k"
    using k n by (simp add: range_of_recording prefix_sum_Suc length_py_range)
  then show ?case using Cons by (simp add: ranges_of_def)
qed

lemma set_ranges_of:
  assumes "\<forall>k \<in> set g. 0 \<le> k \<and> k < int (length sizes)"
  shows "set (ranges_of (cumsum sizes) g) =
           (\<Union>k \<in> set g. {prefix_sum sizes (nat k)..<prefix_sum sizes (Suc (nat k))})"
  using assms by (auto simp: ranges_of_def range_of_recording set_py_range)

lemma set_labelled_rows:
  "set (zip (map int [0..<length vs]) vs) = {(int r, vs ! r) | r. r < length vs}"
proof (intro set_eqI iffI)
  fix p assume "p \<in> set (zip (map int [0..<length vs]) vs)"
  then obtain i where "i < length vs" "p = (map int [0..<length vs] ! i, vs ! i)"
    by (auto simp: set_zip)
  then show "p \<in> {(int r, vs ! r) | r. r < length vs}" by auto
next
  fix p assume "p \<in> {(int r, vs ! r) | r. r < length vs}"
  then obtain r where r: "r < length vs" "p = (int r, vs ! r)" by auto
  then have "p = (map int [0..<length vs] ! r, vs ! r)" by simp
  with r(1) show "p \<in> set (zip (map int [0..<length vs]) vs)"
    unfolding set_zip by (intro CollectI exI [where x = r]) simp
qed

lemma set_rows_of: "set (rows_of vs v) = {int r | r. r < length vs \<and> vs ! r = v}"
  unfolding rows_of_def by (auto simp: set_labelled_rows image_iff)

lemma rows_of_valid:
  "\<forall>k \<in> set (rows_of vs v). 0 \<le> k \<and> k < int (length vs)"
  by (auto simp: set_rows_of)

lemma rows_of_nonempty: "v \<in> set vs \<Longrightarrow> rows_of vs v \<noteq> []"
proof -
  assume "v \<in> set vs"
  then obtain r where "r < length vs" "vs ! r = v" by (auto simp: in_set_conv_nth)
  then have "int r \<in> set (rows_of vs v)" by (auto simp: set_rows_of)
  then show ?thesis by auto
qed

lemma distinct_rows_of: "distinct (rows_of vs v)"
proof -
  have "distinct (map fst (zip (map int [0..<length vs]) vs))"
    by (simp add: distinct_map inj_on_def)
  then have "distinct (map fst (filter (\<lambda>lv. snd lv = v) (zip (map int [0..<length vs]) vs)))"
    by (rule distinct_map_filter)
  then show ?thesis by (simp add: rows_of_def)
qed

lemma split_ids_groups:
  assumes col: "map_of (df_columns df) f = Some vs"
    and idx: "df_index df = map int [0..<length vs]"
  shows "split_ids df (Some f) = Inr (map (\<lambda>v. (v, rows_of vs v)) (sort (remdups vs)))"
proof -
  let ?groups = "map (\<lambda>v. (v, rows_of vs v)) (sort (remdups vs))"
  have c: "df_contains df (Some f)"
    using col by (auto simp: df_contains_def dest: map_of_SomeD intro: rev_image_eqI)
  have g: "groupby df (Some f) = Inr ?groups"
    using col idx by (simp add: groupby_def rows_of_def)
  have d: "distinct (map fst ?groups)"
    by (simp add: comp_def)
  have "fold (\<lambda>(group_name, group). AList.update group_name group) ?groups [] = [] @ ?groups"
    using d by (intro fold_update_distinct) simp_all
  then show ?thesis
    using c g by (simp add: split_ids_def)
qed

lemma distinct_concat_map:
  assumes "distinct xs" and "\<forall>x \<in> set xs. distinct (h x)"
    and "\<forall>x \<in> set xs. \<forall>y \<in> set xs. x \<noteq> y \<longrightarrow> set (h x) \<inter> set (h y) = {}"
  shows "distinct (concat (map h xs))"
  using assms
proof (induction xs)
  case Nil
  then show ?case by simp
next
  case (Cons x xs)
  have "set (h x) \<inter> set (h y) = {}" if "y \<in> set xs" for y
    using Cons.prems(1,3) that by auto
  then have "set (h x) \<inter> (\<Union>y \<in> set xs. set (h y)) = {}" by blast
  moreover have "distinct (concat (map h xs))"
    using Cons by simp
  ultimately show ?case using Cons.prems(2) by simp
qed

lemma split_by_property_result:
  assumes two: "2 \<le> length sizes"
    and cum: "cumulative_sizes self = cumsum sizes"
    and inf: "moabb_info (info self) (length sizes)"
    and col: "map_of (df_columns (info self)) f = Some vs"
  shows "length vs = length sizes"
    and "MOABBDataset_split self (Some f) None =
       Inr (map (\<lambda>v. (GroupName v, ranges_of (cumsum sizes) (rows_of vs v))) (sort (remdups vs)))"
proof -
  have "(f, vs) \<in> set (df_columns (info self))"
    using col by (rule map_of_SomeD)
  with inf show len: "length vs = length sizes"
    by (auto simp: moabb_info_def)
  have idx: "df_index (info self) = map int [0..<length vs]"
    using inf len by (simp add: moabb_info_def)
  let ?cum = "cumsum sizes"
  let ?ids = "map (\<lambda>(k, g). (GroupName k, g)) (map (\<lambda>v. (v, rows_of vs v)) (sort (remdups vs)))"
  have s: "split_ids (info self) (Some f) = Inr (map (\<lambda>v. (v, rows_of vs v)) (sort (remdups vs)))"
    using col idx by (rule split_ids_groups)
  have d: "distinct (map fst ?ids)"
    by (simp add: comp_def distinct_map inj_on_def)
  have e: "fst ` set ?ids \<inter> fst ` set ([] :: ('a split_name \<times> int list) list) = {}" by simp
  have v: "\<forall>(name, ws) \<in> set ?ids. supercrop_ids_of_windows ?cum ws = Inr (ranges_of ?cum ws)"
  proof (clarify)
    fix name ws assume "(name, ws) \<in> set ?ids"
    then obtain v where v: "v \<in> set vs" "ws = rows_of vs v" by auto
    have ne: "ws \<noteq> []" using v by (simp add: rows_of_nonempty)
    have va: "\<forall>k \<in> set ws. 0 \<le> k \<and> k < int (length ?cum)"
      using rows_of_valid [of vs v] v len by (simp add: length_cumsum)
    have t: "2 \<le> length ?cum" using two by (simp add: length_cumsum)
    show "supercrop_ids_of_windows ?cum ws = Inr (ranges_of ?cum ws)"
      unfolding ranges_of_def using t ne va by (rule supercrop_ids_of_windows_valid)
  qed
  have "supercrop_ids_loop ?ids ?cum [] = Inr ([] @ map (\<lambda>(name, ws). (name, ranges_of ?cum ws)) ?ids)"
    using d e v by (rule supercrop_ids_loop_distinct)
  then show "MOABBDataset_split self (Some f) None =
       Inr (map (\<lambda>v. (GroupName v, ranges_of (cumsum sizes) (rows_of vs v))) (sort (remdups vs)))"
    by (simp add: MOABBDataset_split_def windows_dataset_ids_to_supercrop_ids_def s cum comp_def)
qed

lemma set_group_ranges:
  assumes "length vs = length sizes"
  shows "set (ranges_of (cumsum sizes) (rows_of vs v)) =
           (\<Union>r \<in> {r. r < length vs \<and> vs ! r = v}. {prefix_sum sizes r..<prefix_sum sizes (Suc r)})"
proof -
  have "\<forall>k \<in> set (rows_of vs v). 0 \<le> k \<and> k < int (length sizes)"
    using rows_of_valid [of vs v] assms by simp
  then have "set (ranges_of (cumsum sizes) (rows_of vs v)) =
           (\<Union>k \<in> set (rows_of vs v). {prefix_sum sizes (nat k)..<prefix_sum sizes (Suc (nat k))})"
    by (rule set_ranges_of)
  also have "\<dots> = (\<Union>r \<in> {r. r < length vs \<and> vs ! r = v}. {prefix_sum sizes r..<prefix_sum sizes (Suc r)})"
    by (auto simp: set_rows_of)
  finally show ?thesis .
qed

lemma groups_cover:
  assumes "length vs = length sizes"
  shows "(\<Union>v \<in> set vs. set (ranges_of (cumsum sizes) (rows_of vs v))) = {0..<int (sum_list sizes)}"
proof -
  have "(\<Union>v \<in> set vs. set (ranges_of (cumsum sizes) (rows_of vs v))) =
        (\<Union>r<length vs. {prefix_sum sizes r..<prefix_sum sizes (Suc r)})"
    unfolding set_group_ranges [OF assms]
  proof (intro set_eqI iffI)
    fix x
    assume "x \<in> (\<Union>v \<in> set vs. \<Union>r \<in> {r. r < length vs \<and> vs ! r = v}.
                    {prefix_sum sizes r..<prefix_sum sizes (Suc r)})"
    then show "x \<in> (\<Union>r<length vs. {prefix_sum sizes r..<prefix_sum sizes (Suc r)})"
      by auto
  next
    fix x
    assume "x \<in> (\<Union>r<length vs. {prefix_sum sizes r..<prefix_sum sizes (Suc r)})"
    then obtain r where r: "r < length vs" "x \<in> {prefix_sum sizes r..<prefix_sum sizes (Suc r)}"
      by auto
    then have "vs ! r \<in> set vs" by simp
    with r show "x \<in> (\<Union>v \<in> set vs. \<Union>r \<in> {r. r < length vs \<and> vs ! r = v}.
                    {prefix_sum sizes r..<prefix_sum sizes (Suc r)})"
      by blast
  qed
  also have "\<dots> = {0..<prefix_sum sizes (length vs)}"
    by (rule union_ranges)
  finally show ?thesis using assms by (simp add: prefix_sum_def)
qed

lemma groups_disjoint:
  assumes "length vs = length sizes" and "v \<noteq> w"
  shows "set (ranges_of (cumsum sizes) (rows_of vs v)) \<inter>
         set (ranges_of (cumsum sizes) (rows_of vs w)) = {}"
proof -
  have "{prefix_sum sizes r..<prefix_sum sizes (Suc r)} \<inter>
        {prefix_sum sizes r'..<prefix_sum sizes (Suc r')} = {}"
    if "vs ! r = v" "vs ! r' = w" for r r'
  proof -
    from that assms(2) have "r \<noteq> r'" by auto
    then show ?thesis by (rule disjoint_ranges)
  qed
  then show ?thesis
    unfolding set_group_ranges [OF assms(1)] by blast
qed

lemma distinct_group_ranges:
  assumes "length vs = length sizes"
  shows "distinct (ranges_of (cumsum sizes) (rows_of vs v))"
  unfolding ranges_of_def
proof (rule distinct_concat_map)
  show "distinct (rows_of vs v)" by (rule distinct_rows_of)
  show "\<forall>k \<in> set (rows_of vs v). distinct (py_range (window_start (cumsum sizes) k) (cumsum sizes ! nat k))"
    by (simp add: distinct_py_range)
  show "\<forall>x \<in> set (rows_of vs v). \<forall>y \<in> set (rows_of vs v). x \<noteq> y \<longrightarrow>
          set (py_range (window_start (cumsum sizes) x) (cumsum sizes ! nat x)) \<inter>
          set (py_range (window_start (cumsum sizes) y) (cumsum sizes ! nat y)) = {}"
  proof (intro ballI impI)
    fix x y assume x: "x \<in> set (rows_of vs v)" and y: "y \<in> set (rows_of vs v)" and ne: "x \<noteq> y"
    have vx: "0 \<le> x \<and> x < int (length sizes)" and vy: "0 \<le> y \<and> y < int (length sizes)"
      using rows_of_valid [of vs v] x y assms by auto
    then have "nat x \<noteq> nat y" using ne by auto
    then have "{prefix_sum sizes (nat x)..<prefix_sum sizes (Suc (nat x))} \<inter>
               {prefix_sum sizes (nat y)..<prefix_sum sizes (Suc (nat y))} = {}"
      by (rule disjoint_ranges)
    then show "set (py_range (window_start (cumsum sizes) x) (cumsum sizes ! nat x)) \<inter>
          set (py_range (window_start (cumsum sizes) y) (cumsum sizes ! nat y)) = {}"
      using vx vy by (simp add: range_of_recording set_py_range)
  qed
qed

text \<open>
  Split by a metadata field, on a dataset of at least two recordings whose metadata
  table is the one \<^verbatim>\<open>MOABBDataset\<close> builds: one split per distinct value of the field,
  the index sets cover \<open>[0, total)\<close>, are pairwise disjoint, and hold no index twice.
\<close>

lemma split_by_property_partition:
  assumes two: "2 \<le> length sizes"
    and cum: "cumulative_sizes self = cumsum sizes"
    and inf: "moabb_info (info self) (length sizes)"
    and col: "map_of (df_columns (info self)) f = Some vs"
  shows "\<exists>m. MOABBDataset_split self (Some f) None = Inr m \<and>
           map fst m = map GroupName (sort (remdups vs)) \<and>
           (\<Union>p \<in> set m. set (snd p)) = {0..<int (sum_list sizes)} \<and>
           (\<forall>i < length m. \<forall>j < length m. i \<noteq> j \<longrightarrow> set (snd (m ! i)) \<inter> set (snd (m ! j)) = {}) \<and>
           (\<forall>p \<in> set m. distinct (snd p))"
proof -
  let ?ks = "sort (remdups vs)"
  let ?m = "map (\<lambda>v. (GroupName v :: 'a split_name, ranges_of (cumsum sizes) (rows_of vs v))) ?ks"
  note r = split_by_property_result [OF two cum inf col]
  have len: "length vs = length sizes" by (rule r(1))
  have a: "map fst ?m = map GroupName ?ks" by (simp add: comp_def)
  have b: "(\<Union>p \<in> set ?m. set (snd p)) = {0..<int (sum_list sizes)}"
    using groups_cover [OF len] by simp
  have dk: "distinct ?ks" by simp
  have c: "\<forall>i < length ?m. \<forall>j < length ?m. i \<noteq> j \<longrightarrow> set (snd (?m ! i)) \<inter> set (snd (?m ! j)) = {}"
  proof (intro allI impI)
    fix i j assume i: "i < length ?m" and j: "j < length ?m" and ne: "i \<noteq> j"
    then have "?ks ! i \<noteq> ?ks ! j"
      using dk by (simp add: nth_eq_iff_index_eq)
    from groups_disjoint [OF len this] show "set (snd (?m ! i)) \<inter> set (snd (?m ! j)) = {}"
      using i j by simp
  qed
  have d: "\<forall>p \<in> set ?m. distinct (snd p)"
    using distinct_group_ranges [OF len] by auto
  show ?thesis
    using r(2) a b c d by blast
qed

text \<open>
  The scenario of the specification: three recordings with \<^verbatim>\<open>session\<close> values
  \<open>train, train, eval\<close>.
\<close>

lemma split_three_recordings_by_session:
  "MOABBDataset_split three_recordings (Some ''session'') None =
     Inr [(GroupName ''eval'', [8, 9]), (GroupName ''train'', [0, 1, 2, 3, 4, 5, 6, 7])]"
  by code_simp

subsection \<open>Splits of a dataset of one recording\<close>

lemma supercrop_ids_of_windows_single:
  assumes "length cum = 1" and "ws \<noteq> []" and "\<forall>k \<in> set ws. k = 0 \<or> k = - 1"
  shows "supercrop_ids_of_windows cum ws = Inl TypeError"
proof -
  obtain c where c: "cum = [c]"
    using assms(1) by (cases cum) auto
  obtain w rest where w: "ws = w # rest"
    using assms(2) by (cases ws) auto
  with assms(3) have "w = 0 \<or> w = - 1" by simp
  then show ?thesis
    unfolding c w by (auto simp: supercrop_ids_of_windows_def np_insert0_def py_index_def)
qed

lemma supercrop_ids_of_windows_one_size:
  assumes "length cum = 1"
  shows "\<exists>e. supercrop_ids_of_windows cum ws = Inl e"
proof (cases ws)
  case Nil
  then show ?thesis by (simp add: supercrop_ids_of_windows_Nil)
next
  case (Cons w rest)
  obtain c where c: "cum = [c]"
    using assms by (cases cum) auto
  show ?thesis
    unfolding c Cons
    by (auto simp: supercrop_ids_of_windows_def np_insert0_def py_index_def Let_def
        split: sum.splits)
qed

text \<open>
  On a dataset of one recording every split by explicit lists raises, and every split
  by a field of \<^verbatim>\<open>MOABBDataset\<close>'s metadata table raises \<^verbatim>\<open>TypeError\<close>.
\<close>

lemma split_one_recording_fails:
  assumes "length (cumulative_sizes self) = 1" and "groups \<noteq> []"
  shows "\<exists>e. MOABBDataset_split self None (Some groups) = Inl e"
proof -
  obtain g rest where g: "groups = g # rest"
    using assms(2) by (cases groups) auto
  obtain e where "supercrop_ids_of_windows (cumulative_sizes self) g = Inl e"
    using supercrop_ids_of_windows_one_size [OF assms(1)] by blast
  then show ?thesis
    by (simp add: g MOABBDataset_split_def windows_dataset_ids_to_supercrop_ids_def
        enumerate_list_def upt_rec)
qed

lemma split_by_property_one_recording_raises:
  assumes one: "length (cumulative_sizes self) = 1"
    and inf: "moabb_info (info self) 1"
    and col: "map_of (df_columns (info self)) f = Some vs"
  shows "MOABBDataset_split self (Some f) None = Inl TypeError"
proof -
  have "(f, vs) \<in> set (df_columns (info self))"
    using col by (rule map_of_SomeD)
  with inf have "length vs = 1" by (auto simp: moabb_info_def)
  then obtain v where v: "vs = [v]" by (cases vs) auto
  have idx: "df_index (info self) = map int [0..<length vs]"
    using inf v by (simp add: moabb_info_def)
  have s: "split_ids (info self) (Some f) = Inr [(v, [0])]"
    using split_ids_groups [OF col idx] by (simp add: v rows_of_def)
  have t: "supercrop_ids_of_windows (cumulative_sizes self) [0] = Inl TypeError"
    using one by (intro supercrop_ids_of_windows_single) simp_all
  show ?thesis
    by (simp add: MOABBDataset_split_def s windows_dataset_ids_to_supercrop_ids_def t)
qed

text \<open>
  Claim C3 (split by a metadata field returns one index set per distinct value, the
  sets pairwise disjoint and their union \<open>[0, total)\<close>) fails on the code for a dataset
  of one recording. \<^verbatim>\<open>cumulative_sizes[:-1]\<close> is then the empty list, \<^verbatim>\<open>np.insert\<close>
  makes of it the \<^verbatim>\<open>float64\<close> array \<^verbatim>\<open>[0.]\<close>, and \<^verbatim>\<open>range\<close> refuses its element:
  \<^verbatim>\<open>split\<close> by the field \<^verbatim>\<open>session\<close> raises \<^verbatim>\<open>TypeError\<close>, where the claim promises
  the one index set \<open>[0, 5)\<close>.
\<close>

theorem split_by_property_one_recording:
  "MOABBDataset_split one_recording (Some ''session'') None = Inl TypeError"
  by code_simp

text \<open>
  Claim C6 (split by explicit lists names the splits \<open>0, 1, 2, ...\<close> and gives each the
  index ranges of its recordings end to end) fails on the code for the same dataset:
  \<^verbatim>\<open>split\<close> by the explicit list \<open>[[0]]\<close> raises \<^verbatim>\<open>TypeError\<close>, where the claim promises
  the split \<open>0\<close> with the indices \<open>0, ..., 4\<close>. It fails as well, on any dataset, for a
  list that names no recording: on three recordings the lists \<open>[[0, 1], []]\<close> raise
  \<^verbatim>\<open>ValueError\<close>, where the claim promises the splits \<open>0\<close> with the indices
  \<open>0, ..., 7\<close> and \<open>1\<close> with none.
\<close>

theorem split_by_ids_raises:
  "MOABBDataset_split one_recording None (Some [[0]]) = Inl TypeError \<and>
   MOABBDataset_split three_recordings None (Some [[0, 1], []]) = Inl ValueError"
  by code_simp

section \<open>Properties of the loader\<close>

lemma loader_body_yield:
  "snd (loader_body net b) =
     (if has_type (batch_x b) then
        (if has_type (batch_y b)
         then Inr (Batch2 (Tensor Float32 (rows (batch_x b))) (Tensor Int64 (rows (batch_y b))))
         else Inl AttributeError)
      else Inr (Batch2 (batch_x b) (batch_y b)))"
  by (cases b; cases "batch_x b"; cases "batch_y b") (auto simp: loader_body_def)

lemma loader_body_state:
  "fst (loader_body net b) =
     (case b of Batch2 x y \<Rightarrow> net | Batch3 x y i \<Rightarrow> net\<lparr>last_supercrop_inds := Some i\<rparr>)"
  by (cases b) (auto simp: loader_body_def split: sum.splits)

lemma iter_emitted_len2:
  "b \<in> set (fst (ThrowAwayIndexLoader_iter net it)) \<Longrightarrow> len_batch b = 2"
proof (induction it arbitrary: net)
  case Nil
  then show ?case by simp
next
  case (Cons a it)
  obtain net' r where lb: "loader_body net a = (net', r)" by (cases "loader_body net a")
  show ?case
  proof (cases r)
    case (Inl e)
    with Cons.prems lb show ?thesis by simp
  next
    case (Inr out)
    have "snd (loader_body net a) = Inr out" using lb Inr by simp
    then have out2: "len_batch out = 2"
      by (auto simp: loader_body_yield split: if_splits)
    obtain outs net'' err where it: "ThrowAwayIndexLoader_iter net' it = (outs, net'', err)"
      by (cases "ThrowAwayIndexLoader_iter net' it")
    from Cons.prems lb Inr it have "b = out \<or> b \<in> set (fst (ThrowAwayIndexLoader_iter net' it))"
      by auto
    then show ?thesis using out2 Cons.IH by blast
  qed
qed

lemma iter_emitted_nth:
  "k < length (fst (ThrowAwayIndexLoader_iter net it)) \<Longrightarrow>
     k < length it \<and>
     fst (ThrowAwayIndexLoader_iter net it) ! k =
       (if has_type (batch_x (it ! k))
        then Batch2 (Tensor Float32 (rows (batch_x (it ! k)))) (Tensor Int64 (rows (batch_y (it ! k))))
        else Batch2 (batch_x (it ! k)) (batch_y (it ! k)))"
proof (induction it arbitrary: net k)
  case Nil
  then show ?case by simp
next
  case (Cons a it)
  obtain net' r where lb: "loader_body net a = (net', r)" by (cases "loader_body net a")
  show ?case
  proof (cases r)
    case (Inl e)
    with Cons.prems lb show ?thesis by simp
  next
    case (Inr out)
    have sy: "snd (loader_body net a) = Inr out" using lb Inr by simp
    obtain outs net'' err where it: "ThrowAwayIndexLoader_iter net' it = (outs, net'', err)"
      by (cases "ThrowAwayIndexLoader_iter net' it")
    have em: "fst (ThrowAwayIndexLoader_iter net (a # it)) = out # outs"
      using lb Inr it by simp
    show ?thesis
    proof (cases k)
      case 0
      then show ?thesis using em sy by (auto simp: loader_body_yield split: if_splits)
    next
      case (Suc j)
      with Cons.prems em have "j < length (fst (ThrowAwayIndexLoader_iter net' it))"
        using it by simp
      from Cons.IH [OF this] show ?thesis using em Suc it by simp
    qed
  qed
qed

text \<open>
  Claim C1, as the code has it. With \<^verbatim>\<open>drop_index=True\<close> every batch the loader emits
  has two elements, the input and the target, never a third. With \<^verbatim>\<open>drop_index=False\<close>
  \<^verbatim>\<open>get_iterator\<close> returns the underlying iterator itself, so the emitted batches are
  the raw batches: a raw batch of three elements is emitted with the same third
  element, and a raw batch of two elements is emitted with two.
\<close>

theorem get_iterator_emits:
  "(\<forall>b \<in> set (fst (EEGClassifier_get_iterator self iterator True)). len_batch b = 2) \<and>
   fst (EEGClassifier_get_iterator self iterator False) = iterator \<and>
   (\<forall>k < length iterator. \<forall>x y i. iterator ! k = Batch3 x y i \<longrightarrow>
      fst (EEGClassifier_get_iterator self iterator False) ! k = Batch3 x y i)"
  by (auto simp: EEGClassifier_get_iterator_def iter_emitted_len2)

theorem get_iterator_emits_witness:
  "Batch2 (Tensor Float32 [''x1'']) (Tensor Int64 [0])
     \<in> set (fst (EEGClassifier_get_iterator scoring_net scenario_stream True)) \<and>
   len_batch (Batch2 (Tensor Float32 [''x1'']) (Tensor Int64 [0]) :: (string, int, int arr list) batch) = 2 \<and>
   fst (EEGClassifier_get_iterator scoring_net scenario_stream False) = scenario_stream \<and>
   0 < length scenario_stream \<and>
   scenario_stream ! 0 = Batch3 (Tensor Float64 [''x0'']) (Tensor Int32 [1]) p0 \<and>
   fst (EEGClassifier_get_iterator scoring_net scenario_stream False) ! 0 =
     Batch3 (Tensor Float64 [''x0'']) (Tensor Int32 [1]) p0"
proof -
  have m: "Batch2 (Tensor Float32 [''x1'']) (Tensor Int64 [0])
     \<in> set (fst (EEGClassifier_get_iterator scoring_net scenario_stream True))"
    by (simp add: EEGClassifier_get_iterator_def scenario_stream_def loader_body_def)
  show ?thesis
    using m get_iterator_emits [of scoring_net scenario_stream]
    by (simp add: scenario_stream_def)
qed

text \<open>
  Claim C1 as stated fails: on the stream \<open>[(x0, y0, p0), (x1, y1)]\<close> the loader with
  \<^verbatim>\<open>drop_index=False\<close> emits a second batch of two elements, not three.
\<close>

theorem get_iterator_pair_counterexample:
  "map len_batch (fst (EEGClassifier_get_iterator scoring_net scenario_stream False)) = [3, 2]"
  by (simp add: EEGClassifier_get_iterator_def scenario_stream_def)

text \<open>
  Claim C7, as the code has it. The test of the loader is \<^verbatim>\<open>hasattr(x, 'type')\<close>: when
  the input of a raw batch is a tensor (it has the method \<^verbatim>\<open>type\<close>), the emitted input
  is that tensor as \<^verbatim>\<open>float32\<close> and the emitted target is the target as \<^verbatim>\<open>int64\<close>;
  when the input is not a tensor, input and target are emitted unchanged.
\<close>

theorem loader_coerces_tensors:
  "\<forall>k < length (fst (EEGClassifier_get_iterator self iterator True)).
     k < length iterator \<and>
     fst (EEGClassifier_get_iterator self iterator True) ! k =
       (if has_type (batch_x (iterator ! k))
        then Batch2 (Tensor Float32 (rows (batch_x (iterator ! k))))
                    (Tensor Int64 (rows (batch_y (iterator ! k))))
        else Batch2 (batch_x (iterator ! k)) (batch_y (iterator ! k)))"
  by (simp add: EEGClassifier_get_iterator_def iter_emitted_nth)

theorem loader_coerces_tensors_witness:
  "0 < length (fst (EEGClassifier_get_iterator scoring_net scenario_stream True)) \<and>
   fst (EEGClassifier_get_iterator scoring_net scenario_stream True) ! 0 =
     Batch2 (Tensor Float32 [''x0'']) (Tensor Int64 [1]) \<and>
   0 < length (fst (EEGClassifier_get_iterator scoring_net plain_stream True)) \<and>
   fst (EEGClassifier_get_iterator scoring_net plain_stream True) ! 0 =
     Batch2 (NoType [''x0'']) (NoType [1])"
proof -
  have a: "0 < length (fst (EEGClassifier_get_iterator scoring_net scenario_stream True))"
    by (simp add: EEGClassifier_get_iterator_def scenario_stream_def loader_body_def)
  have b: "0 < length (fst (EEGClassifier_get_iterator scoring_net plain_stream True))"
    by (simp add: EEGClassifier_get_iterator_def plain_stream_def loader_body_def)
  show ?thesis
    using a b loader_coerces_tensors [of scoring_net scenario_stream]
      loader_coerces_tensors [of scoring_net plain_stream]
    by (simp add: scenario_stream_def plain_stream_def)
qed

text \<open>
  Claim C7 as stated fails in both directions: a batch whose elements are not tensors
  is emitted as it is (no coercion to a floating-point type), and a batch of a
  \<^verbatim>\<open>float64\<close> tensor and an \<^verbatim>\<open>int32\<close> tensor is not passed through unchanged.
\<close>

theorem loader_coercion_counterexample:
  "fst (EEGClassifier_get_iterator scoring_net plain_stream True) =
     [Batch2 (NoType [''x0'']) (NoType [1])] \<and>
   fst (EEGClassifier_get_iterator scoring_net [Batch2 (Tensor Float64 [''x1'']) (Tensor Int32 [0])] True) =
     [Batch2 (Tensor Float32 [''x1'']) (Tensor Int64 [0]) :: (string, int, int arr list) batch]"
  by (simp add: EEGClassifier_get_iterator_def plain_stream_def loader_body_def)

section \<open>Properties of the post-batch hook\<close>

lemma epoch_cbs_registered:
  "epoch_cbs self = map Ref (filter (\<lambda>a. is_epoch_cb (objects self a)) (map snd (callbacks self)))"
proof -
  have d: "filter (\<lambda>cb. is_epoch_cb (deref self cb))
             (map snd (map (\<lambda>(name, cb). (name, Fresh cb)) default_callbacks)) = []"
    by (simp add: default_callbacks_def is_epoch_cb_def)
  have r: "filter (\<lambda>cb. is_epoch_cb (deref self cb)) (map snd (map (\<lambda>(name, a). (name, Ref a)) cs))
           = map Ref (filter (\<lambda>a. is_epoch_cb (objects self a)) (map snd cs))" for cs :: "(string \<times> nat) list"
    by (induction cs) auto
  show ?thesis
    unfolding epoch_cbs_def using d r [of "callbacks self"] by simp
qed

lemma fold_append_inds:
  "fold (append_inds i) (map Ref as) self =
     self\<lparr>objects := (\<lambda>b. (objects self b)\<lparr>supercrop_inds :=
              map_option (\<lambda>log. log @ replicate (count_list as b) i) (supercrop_inds (objects self b))\<rparr>)\<rparr>"
proof (induction as arbitrary: self)
  case Nil
  have "map_option (\<lambda>log. log) = (\<lambda>x::'a list option. x)"
    by (rule ext) (simp add: option.map_ident)
  then show ?case by simp
next
  case (Cons a as)
  show ?case
    apply (simp add: Cons.IH)
    apply (rule arg_cong [where f = "\<lambda>f. self\<lparr>objects := f\<rparr>"])
    apply (rule ext)
    apply (auto simp: option.map_comp comp_def replicate_append_same)
    done
qed

lemma on_batch_end_eval:
  assumes "epoch_cbs self \<noteq> []"
  shows "EEGClassifier_on_batch_end self False =
     (case last_supercrop_inds self of
        None \<Rightarrow> Inl AssertionError
      | Some i \<Rightarrow>
          Inr (self\<lparr>objects := (\<lambda>b. (objects self b)\<lparr>supercrop_inds :=
                       map_option (\<lambda>log. log @ replicate
                           (count_list (filter (\<lambda>a. is_epoch_cb (objects self a)) (map snd (callbacks self))) b) i)
                         (supercrop_inds (objects self b))\<rparr>),
                    last_supercrop_inds := None\<rparr>))"
proof -
  have "EEGClassifier_on_batch_end self False =
     (case last_supercrop_inds self of
        None \<Rightarrow> Inl AssertionError
      | Some i \<Rightarrow> Inr ((fold (append_inds i) (epoch_cbs self) self)\<lparr>last_supercrop_inds := None\<rparr>))"
    using assms by (simp add: EEGClassifier_on_batch_end_def)
  then show ?thesis
    by (simp add: epoch_cbs_registered fold_append_inds split: option.splits)
qed

lemma registered_consumer_epoch_cbs:
  "(name, a) \<in> set (callbacks self) \<Longrightarrow> is_epoch_cb (objects self a) \<Longrightarrow> epoch_cbs self \<noteq> []"
  by (force simp: epoch_cbs_registered filter_empty_conv)

lemma count_list_filter:
  "count_list (filter P xs) b = (if P b then count_list xs b else 0)"
  by (induction xs) auto

text \<open>
  Claim C2. Let the classifier have a registered callback \<open>a\<close> of class
  \<^verbatim>\<open>CroppedTrialEpochScoring\<close> with a list \<^verbatim>\<open>supercrop_inds_\<close> and \<^verbatim>\<open>on_train == False\<close>.
  Then \<^verbatim>\<open>on_batch_end\<close> in evaluation mode raises \<^verbatim>\<open>AssertionError\<close> when no provenance
  is pending; when \<open>p\<close> is pending it appends \<open>p\<close> to the list of every such callback
  (once for each time the object is registered), leaves every other object as it is,
  and clears the pending slot. For the stream \<open>[(x0, y0, p0), (x1, y1)]\<close>: after the
  loader has yielded batch 0 the hook succeeds and the list of \<open>a\<close> contains \<open>p0\<close>;
  after it has yielded batch 1 the hook raises \<^verbatim>\<open>AssertionError\<close>.
\<close>

theorem on_batch_end_delivers:
  assumes reg: "(name, a) \<in> set (callbacks self)" and cons: "is_epoch_cb (objects self a)"
  shows
    "(last_supercrop_inds self = None \<longrightarrow>
        EEGClassifier_on_batch_end self False = Inl AssertionError) \<and>
     (\<forall>p. last_supercrop_inds self = Some p \<longrightarrow>
        (\<exists>self'. EEGClassifier_on_batch_end self False = Inr self' \<and>
           last_supercrop_inds self' = None \<and>
           callbacks self' = callbacks self \<and>
           (\<forall>b. is_epoch_cb (objects self b) \<and> b \<in> set (map snd (callbacks self)) \<longrightarrow>
              (\<exists>log. supercrop_inds (objects self b) = Some log \<and>
                 supercrop_inds (objects self' b) =
                   Some (log @ replicate (count_list (map snd (callbacks self)) b) p) \<and>
                 p \<in> set (log @ replicate (count_list (map snd (callbacks self)) b) p))) \<and>
           (\<forall>b. \<not> (is_epoch_cb (objects self b) \<and> b \<in> set (map snd (callbacks self))) \<longrightarrow>
              objects self' b = objects self b))) \<and>
     (\<forall>x0 y0 p0 x1 y1 s1 (e0 :: ('x, 'y, 'i) batch).
        loader_body self (Batch3 x0 y0 p0) = (s1, Inr e0) \<longrightarrow>
        (\<exists>s2 log. EEGClassifier_on_batch_end s1 False = Inr s2 \<and>
           supercrop_inds (objects s2 a) = Some log \<and> p0 \<in> set log \<and>
           (\<forall>s3 (e1 :: ('x, 'y, 'i) batch).
              loader_body s2 (Batch2 x1 y1) = (s3, Inr e1) \<longrightarrow>
              EEGClassifier_on_batch_end s3 False = Inl AssertionError)))"
proof (intro conjI allI impI)
  have ne: "epoch_cbs self \<noteq> []"
    using reg cons by (rule registered_consumer_epoch_cbs)
  show "EEGClassifier_on_batch_end self False = Inl AssertionError"
    if "last_supercrop_inds self = None"
    using that by (simp add: on_batch_end_eval [OF ne])
next
  fix p assume p: "last_supercrop_inds self = Some p"
  have ne: "epoch_cbs self \<noteq> []"
    using reg cons by (rule registered_consumer_epoch_cbs)
  let ?as = "filter (\<lambda>a. is_epoch_cb (objects self a)) (map snd (callbacks self))"
  let ?self' = "self\<lparr>objects := (\<lambda>b. (objects self b)\<lparr>supercrop_inds :=
                       map_option (\<lambda>log. log @ replicate (count_list ?as b) p)
                         (supercrop_inds (objects self b))\<rparr>),
                    last_supercrop_inds := None\<rparr>"
  have r: "EEGClassifier_on_batch_end self False = Inr ?self'"
    using p by (simp add: on_batch_end_eval [OF ne])
  have c1: "\<exists>log. supercrop_inds (objects self b) = Some log \<and>
                 supercrop_inds (objects ?self' b) =
                   Some (log @ replicate (count_list (map snd (callbacks self)) b) p) \<and>
                 p \<in> set (log @ replicate (count_list (map snd (callbacks self)) b) p)"
    if "is_epoch_cb (objects self b) \<and> b \<in> set (map snd (callbacks self))" for b
  proof -
    from that obtain log where l: "supercrop_inds (objects self b) = Some log"
      by (auto simp: is_epoch_cb_def)
    have "count_list (map snd (callbacks self)) b \<noteq> 0"
      using that by (simp add: count_list_0_iff)
    then have "0 < count_list (map snd (callbacks self)) b"
      by simp
    then show ?thesis using that l by (auto simp: count_list_filter)
  qed
  have c2: "objects ?self' b = objects self b"
    if "\<not> (is_epoch_cb (objects self b) \<and> b \<in> set (map snd (callbacks self)))" for b
  proof -
    have "count_list ?as b = 0"
      using that by (auto simp: count_list_filter count_list_0_iff)
    then show ?thesis by (cases "supercrop_inds (objects self b)") simp_all
  qed
  show "\<exists>self'. EEGClassifier_on_batch_end self False = Inr self' \<and>
           last_supercrop_inds self' = None \<and>
           callbacks self' = callbacks self \<and>
           (\<forall>b. is_epoch_cb (objects self b) \<and> b \<in> set (map snd (callbacks self)) \<longrightarrow>
              (\<exists>log. supercrop_inds (objects self b) = Some log \<and>
                 supercrop_inds (objects self' b) =
                   Some (log @ replicate (count_list (map snd (callbacks self)) b) p) \<and>
                 p \<in> set (log @ replicate (count_list (map snd (callbacks self)) b) p))) \<and>
           (\<forall>b. \<not> (is_epoch_cb (objects self b) \<and> b \<in> set (map snd (callbacks self))) \<longrightarrow>
              objects self' b = objects self b)"
    apply (rule exI [where x = ?self'])
    using r c1 c2 apply (intro conjI allI impI)
        apply simp_all
    done
next
  fix x0 :: "'x arr" and y0 :: "'y arr" and p0 x1 y1 s1 and e0 :: "('x, 'y, 'i) batch"
  assume lb: "loader_body self (Batch3 x0 y0 p0) = (s1, Inr e0)"
  have s1: "s1 = self\<lparr>last_supercrop_inds := Some p0\<rparr>"
    using loader_body_state [of self "Batch3 x0 y0 p0"] lb by simp
  have ne1: "epoch_cbs s1 \<noteq> []"
    using reg cons by (intro registered_consumer_epoch_cbs [of name a]) (simp_all add: s1)
  let ?as = "filter (\<lambda>a. is_epoch_cb (objects self a)) (map snd (callbacks self))"
  let ?s2 = "self\<lparr>objects := (\<lambda>b. (objects self b)\<lparr>supercrop_inds :=
                       map_option (\<lambda>log. log @ replicate (count_list ?as b) p0)
                         (supercrop_inds (objects self b))\<rparr>),
                    last_supercrop_inds := None\<rparr>"
  have r: "EEGClassifier_on_batch_end s1 False = Inr ?s2"
    by (simp add: on_batch_end_eval [OF ne1]) (simp add: s1)
  from cons obtain log where l: "supercrop_inds (objects self a) = Some log"
    by (auto simp: is_epoch_cb_def)
  have "a \<in> set (map snd (callbacks self))"
    using reg by force
  then have "count_list (map snd (callbacks self)) a \<noteq> 0"
    by (simp only: count_list_0_iff not_not)
  then have pos: "0 < count_list ?as a"
    using cons by (simp add: count_list_filter)
  have lg: "supercrop_inds (objects ?s2 a) = Some (log @ replicate (count_list ?as a) p0)"
    using l by simp
  have mem: "p0 \<in> set (log @ replicate (count_list ?as a) p0)"
    using pos by simp
  have cons2: "is_epoch_cb (objects ?s2 a)"
    using cons l by (simp add: is_epoch_cb_def)
  have ne2: "epoch_cbs ?s2 \<noteq> []"
    using reg cons2 by (intro registered_consumer_epoch_cbs [of name a]) simp_all
  have fin: "EEGClassifier_on_batch_end s3 False = Inl AssertionError"
    if "loader_body ?s2 (Batch2 x1 y1) = (s3, Inr e1)" for s3 and e1 :: "('x, 'y, 'i) batch"
  proof -
    have s3: "s3 = ?s2"
      using loader_body_state [of ?s2 "Batch2 x1 y1"] that by simp
    show ?thesis
      unfolding s3 by (simp add: on_batch_end_eval [OF ne2])
  qed
  show "\<exists>s2 log. EEGClassifier_on_batch_end s1 False = Inr s2 \<and>
           supercrop_inds (objects s2 a) = Some log \<and> p0 \<in> set log \<and>
           (\<forall>s3 (e1 :: ('x, 'y, 'i) batch).
              loader_body s2 (Batch2 x1 y1) = (s3, Inr e1) \<longrightarrow>
              EEGClassifier_on_batch_end s3 False = Inl AssertionError)"
    apply (rule exI [where x = ?s2])
    apply (rule exI [where x = "log @ replicate (count_list ?as a) p0"])
    using r lg mem fin by blast
qed

theorem on_batch_end_delivers_witness:
  "(''valid_accuracy'', 0) \<in> set (callbacks (scoring_net :: int arr list net)) \<and>
   is_epoch_cb (objects (scoring_net :: int arr list net) 0) \<and>
   last_supercrop_inds (scoring_net :: int arr list net) = None \<and>
   EEGClassifier_on_batch_end (scoring_net :: int arr list net) False = Inl AssertionError \<and>
   snd (loader_body (scoring_net :: int arr list net) (scenario_stream ! 0)) =
     Inr (Batch2 (Tensor Float32 [''x0'']) (Tensor Int64 [1])) \<and>
   (case EEGClassifier_on_batch_end (fst (loader_body scoring_net (scenario_stream ! 0))) False of
      Inl e \<Rightarrow> None
    | Inr s2 \<Rightarrow>
        Some (last_supercrop_inds s2, supercrop_inds (objects s2 0), supercrop_inds (objects s2 1),
              EEGClassifier_on_batch_end (fst (loader_body s2 (scenario_stream ! 1))) False)) =
     Some (None, Some [p0], Some [], Inl AssertionError)"
proof -
  have r: "(''valid_accuracy'', 0) \<in> set (callbacks (scoring_net :: int arr list net))"
    by (simp add: scoring_net_def)
  have c: "is_epoch_cb (objects (scoring_net :: int arr list net) 0)"
    by (simp add: scoring_net_def is_epoch_cb_def)
  have n: "last_supercrop_inds (scoring_net :: int arr list net) = None"
    by (simp add: scoring_net_def)
  have e: "EEGClassifier_on_batch_end (scoring_net :: int arr list net) False = Inl AssertionError"
    using on_batch_end_delivers [OF r c] n by blast
  have sc: "(case EEGClassifier_on_batch_end (fst (loader_body scoring_net (scenario_stream ! 0))) False of
      Inl e \<Rightarrow> None
    | Inr s2 \<Rightarrow>
        Some (last_supercrop_inds s2, supercrop_inds (objects s2 0), supercrop_inds (objects s2 1),
              EEGClassifier_on_batch_end (fst (loader_body s2 (scenario_stream ! 1))) False)) =
     Some (None, Some [p0], Some [], Inl AssertionError)"
    by (simp add: scenario_stream_def loader_body_state EEGClassifier_on_batch_end_def epoch_cbs_def
        default_callbacks_def is_epoch_cb_def scoring_net_def)
  have y: "snd (loader_body (scoring_net :: int arr list net) (scenario_stream ! 0)) =
     Inr (Batch2 (Tensor Float32 [''x0'']) (Tensor Int64 [1]))"
    by (simp add: scenario_stream_def loader_body_yield)
  show ?thesis
    using r c n e y sc by simp
qed

section \<open>Properties of the predictor\<close>

lemma chunks_step: "0 < n \<Longrightarrow> xs \<noteq> [] \<Longrightarrow> chunks n xs = take n xs # chunks n (drop n xs)"
  by simp

lemma chunks_Nil [simp]: "chunks n [] = []"
  by simp

declare chunks.simps [simp del]

lemma concat_chunks: "0 < n \<Longrightarrow> concat (chunks n xs) = xs"
proof (induction n xs rule: chunks.induct)
  case (1 n xs)
  show ?case
  proof (cases "xs = []")
    case True
    then show ?thesis by simp
  next
    case False
    with 1 show ?thesis by (simp add: chunks_step)
  qed
qed

lemma chunks_nonempty: "0 < n \<Longrightarrow> xs \<noteq> [] \<Longrightarrow> chunks n xs \<noteq> []"
  by (simp add: chunks_step)

lemma predict_loop_collate_step:
  "predict_loop pp (collate its # rest) (ps, ins, stops, ys) =
     predict_loop pp rest
       (ps @ [pp (Tensor Float64 (map item_x its))], ins @ [map item_i_supercrop_in_trial its],
        stops @ [map item_i_stop_in_trial its], ys @ [map item_y its])"
  by (simp add: collate_def py_index_def)

lemma predict_loop_collated:
  "predict_loop pp (map (\<lambda>run. collate (map g run)) runs) (ps, ins, stops, ys) =
     Inr (ps @ map (\<lambda>run. pp (Tensor Float64 (map (\<lambda>k. item_x (g k)) run))) runs,
          ins @ map (\<lambda>run. map (\<lambda>k. item_i_supercrop_in_trial (g k)) run) runs,
          stops @ map (\<lambda>run. map (\<lambda>k. item_i_stop_in_trial (g k)) run) runs,
          ys @ map (\<lambda>run. map (\<lambda>k. item_y (g k)) run) runs)"
proof (induction runs arbitrary: ps ins stops ys)
  case Nil
  then show ?case by simp
next
  case (Cons r runs)
  show ?case
    by (simp add: predict_loop_collate_step Cons.IH comp_def)
qed

lemma concat_map_map: "concat (map (\<lambda>run. map h run) runs) = map h (concat runs)"
  by (induction runs) auto

lemma predict_over_data_loader:
  assumes bs: "0 < batch_size" and ne: "sampler \<noteq> []"
  shows "EEGClassifier_predict_with_supercrop_inds_and_ys self pp (data_loader sampler batch_size dataset) =
     Inr \<lparr>preds = concat (map (\<lambda>b. pp (batch_x b)) (data_loader sampler batch_size dataset)),
          i_supercrop_in_trials = map (\<lambda>k. item_i_supercrop_in_trial (dataset ! k)) sampler,
          i_supercrop_stops = map (\<lambda>k. item_i_stop_in_trial (dataset ! k)) sampler,
          supercrop_ys = map (\<lambda>k. item_y (dataset ! k)) sampler\<rparr>"
proof -
  let ?runs = "chunks batch_size sampler"
  have rne: "?runs \<noteq> []" using bs ne by (rule chunks_nonempty)
  have cc: "concat ?runs = sampler" using bs by (rule concat_chunks)
  have px: "map (\<lambda>b. pp (batch_x b)) (data_loader sampler batch_size dataset) =
     map (\<lambda>run. pp (Tensor Float64 (map (\<lambda>k. item_x (dataset ! k)) run))) ?runs"
    by (simp add: data_loader_def collate_def comp_def)
  show ?thesis
    unfolding EEGClassifier_predict_with_supercrop_inds_and_ys_def EEGClassifier_get_iterator_def
    apply (simp add: px)
    apply (simp add: data_loader_def predict_loop_collated np_concatenate_def rne concat_map_map cc)
    done
qed

lemma predict_empty_iterator:
  "EEGClassifier_predict_with_supercrop_inds_and_ys self pp [] = Inl ValueError"
  by (simp add: EEGClassifier_predict_with_supercrop_inds_and_ys_def EEGClassifier_get_iterator_def
      np_concatenate_def)

lemma rowwise_preds:
  assumes "\<And>X. pp X = map f (rows X)" and "0 < batch_size"
  shows "concat (map (\<lambda>b. pp (batch_x b)) (data_loader sampler batch_size dataset)) =
     map (\<lambda>k. f (item_x (dataset ! k))) sampler"
proof -
  have "concat (map (\<lambda>b. pp (batch_x b)) (data_loader sampler batch_size dataset)) =
        concat (map (\<lambda>run. map (\<lambda>k. f (item_x (dataset ! k))) run) (chunks batch_size sampler))"
    by (simp add: data_loader_def collate_def comp_def assms(1))
  then show ?thesis using assms(2) by (simp add: concat_map_map concat_chunks)
qed

lemma length_preds:
  assumes "\<And>X. length (pp X) = length (rows X)" and "0 < batch_size"
  shows "length (concat (map (\<lambda>b. pp (batch_x b)) (data_loader sampler batch_size dataset))) =
     length sampler"
proof -
  have "length (concat (map (\<lambda>run. pp (Tensor Float64 (map (\<lambda>k. item_x (dataset ! k)) run))) runs))
        = length (concat runs)" for runs :: "nat list list"
    by (induction runs) (simp_all add: assms(1))
  from this [of "chunks batch_size sampler"] show ?thesis
    using assms(2) by (simp add: data_loader_def collate_def comp_def concat_chunks)
qed

lemma map_nth_upt: "map (\<lambda>k. g (xs ! k)) [0..<length xs] = map g xs"
  by (rule nth_equalityI) simp_all

text \<open>
  The pass over a dataset that is not empty. Let the underlying loader visit the
  dataset in its own order, in batches of a positive size, and let \<^verbatim>\<open>predict_proba\<close>
  return one row per input row. Then the predictor returns a result, and every result
  it returns holds four arrays of the length of the dataset: the predictions are the
  per-batch predictions end to end in batch order, and at every position \<open>k\<close> the index
  in trial, the stop in trial and the target are those of window \<open>k\<close>; when
  \<^verbatim>\<open>predict_proba\<close> works row by row, the prediction at \<open>k\<close> is the one of window \<open>k\<close>.
\<close>

lemma predictor_arrays_aligned:
  assumes len: "\<And>X. length (predict_proba X) = length (rows X)" and bs: "0 < batch_size"
  shows
    "(dataset \<noteq> [] \<longrightarrow>
        (\<exists>out. EEGClassifier_predict_with_supercrop_inds_and_ys self predict_proba
                  (data_loader (sequential_sampler dataset) batch_size dataset) = Inr out)) \<and>
     (\<forall>out. EEGClassifier_predict_with_supercrop_inds_and_ys self predict_proba
               (data_loader (sequential_sampler dataset) batch_size dataset) = Inr out \<longrightarrow>
        length (preds out) = length dataset \<and>
        length (i_supercrop_in_trials out) = length dataset \<and>
        length (i_supercrop_stops out) = length dataset \<and>
        length (supercrop_ys out) = length dataset \<and>
        preds out = concat (map (\<lambda>b. predict_proba (batch_x b))
                       (data_loader (sequential_sampler dataset) batch_size dataset)) \<and>
        (\<forall>k < length dataset.
           i_supercrop_in_trials out ! k = item_i_supercrop_in_trial (dataset ! k) \<and>
           i_supercrop_stops out ! k = item_i_stop_in_trial (dataset ! k) \<and>
           supercrop_ys out ! k = item_y (dataset ! k)) \<and>
        ((\<forall>X. predict_proba X = map f (rows X)) \<longrightarrow>
           (\<forall>k < length dataset. preds out ! k = f (item_x (dataset ! k)))))"
proof (cases "dataset = []")
  case True
  then show ?thesis
    by (simp add: sequential_sampler_def data_loader_def predict_empty_iterator)
next
  case False
  let ?it = "data_loader (sequential_sampler dataset) batch_size dataset"
  let ?out = "\<lparr>preds = concat (map (\<lambda>b. predict_proba (batch_x b)) ?it),
          i_supercrop_in_trials = map item_i_supercrop_in_trial dataset,
          i_supercrop_stops = map item_i_stop_in_trial dataset,
          supercrop_ys = map item_y dataset\<rparr>"
  have ne: "sequential_sampler dataset \<noteq> []"
    using False by (simp add: sequential_sampler_def)
  have r: "EEGClassifier_predict_with_supercrop_inds_and_ys self predict_proba ?it = Inr ?out"
    using predict_over_data_loader [OF bs ne, of self predict_proba dataset]
    by (simp add: sequential_sampler_def map_nth_upt)
  have lp: "length (preds ?out) = length dataset"
    using length_preds [of predict_proba batch_size "sequential_sampler dataset" dataset] len bs
    by (simp add: sequential_sampler_def)
  have rw: "\<forall>k < length dataset. preds ?out ! k = f (item_x (dataset ! k))"
    if "\<forall>X. predict_proba X = map f (rows X)"
  proof -
    have "preds ?out = map (\<lambda>k. f (item_x (dataset ! k))) (sequential_sampler dataset)"
      using rowwise_preds [of predict_proba f batch_size "sequential_sampler dataset" dataset] that bs
      by simp
    then have "preds ?out = map (\<lambda>w. f (item_x w)) dataset"
      using map_nth_upt [of "\<lambda>w. f (item_x w)" dataset]
      by (simp add: sequential_sampler_def)
    then show ?thesis by simp
  qed
  show ?thesis
    unfolding r using lp rw by auto
qed

lemma predictor_arrays_aligned_two_windows:
  "0 < (1::nat) \<and> two_windows \<noteq> [] \<and>
   EEGClassifier_predict_with_supercrop_inds_and_ys scoring_net echo_proba
     (data_loader (sequential_sampler two_windows) 1 two_windows) =
   Inr \<lparr>preds = [''w0'', ''w1''], i_supercrop_in_trials = [0, 1],
        i_supercrop_stops = [100, 150], supercrop_ys = [1, 0]\<rparr>"
proof -
  have h: "\<And>X. length (echo_proba X) = length (rows X)"
    by (simp add: echo_proba_def)
  have a: "0 < (1::nat)" by simp
  have e: "EEGClassifier_predict_with_supercrop_inds_and_ys scoring_net echo_proba
     (data_loader (sequential_sampler two_windows) 1 two_windows) =
   Inr \<lparr>preds = [''w0'', ''w1''], i_supercrop_in_trials = [0, 1],
        i_supercrop_stops = [100, 150], supercrop_ys = [1, 0]\<rparr>"
    by (simp add: chunks_step data_loader_def two_windows_def collate_def sequential_sampler_def
      EEGClassifier_predict_with_supercrop_inds_and_ys_def EEGClassifier_get_iterator_def
      py_index_def np_concatenate_def echo_proba_def item_x_def item_y_def
      item_i_supercrop_in_trial_def item_i_stop_in_trial_def item_i_start_in_trial_def upt_rec)
  show ?thesis
    using predictor_arrays_aligned [OF h a, of two_windows scoring_net "\<lambda>r. r"] e
    by (simp add: two_windows_def)
qed

text \<open>
  Claim C9 (every full non-shuffled pass of the predictor returns four aligned arrays
  whose length is the total window count of the dataset) fails on the code for a
  dataset without windows. The underlying loader then yields no batch, the four lists
  of per-batch arrays stay empty, and the first \<^verbatim>\<open>np.concatenate\<close> raises
  \<^verbatim>\<open>ValueError\<close>, for every trainer and every batch size, where the claim promises
  four arrays of length \<open>0\<close>.
\<close>

theorem predictor_empty_dataset_raises:
  "EEGClassifier_predict_with_supercrop_inds_and_ys self predict_proba
     (data_loader (sequential_sampler []) batch_size []) = Inl ValueError"
  by (simp add: sequential_sampler_def data_loader_def
      EEGClassifier_predict_with_supercrop_inds_and_ys_def EEGClassifier_get_iterator_def
      np_concatenate_def)

text \<open>
  Claim C10, as the code has it. The predictor has no check of the order in which its
  iterator visits the dataset, and no warning: for every visiting order, shuffled or
  not, it returns the per-batch arrays end to end in the order the iterator produced
  them. That the iterator does not shuffle is left to the caller.
\<close>

theorem predictor_follows_sampler:
  assumes "0 < batch_size" and "sampler \<noteq> []" and "set sampler \<subseteq> {..<length dataset}"
  shows "\<exists>out. EEGClassifier_predict_with_supercrop_inds_and_ys self predict_proba
                 (data_loader sampler batch_size dataset) = Inr out \<and>
           preds out = concat (map (\<lambda>b. predict_proba (batch_x b))
                          (data_loader sampler batch_size dataset)) \<and>
           i_supercrop_in_trials out = map (\<lambda>k. item_i_supercrop_in_trial (dataset ! k)) sampler \<and>
           i_supercrop_stops out = map (\<lambda>k. item_i_stop_in_trial (dataset ! k)) sampler \<and>
           supercrop_ys out = map (\<lambda>k. item_y (dataset ! k)) sampler"
  using predict_over_data_loader [OF assms(1) assms(2), of self predict_proba dataset] by simp

theorem predictor_follows_sampler_witness:
  "0 < (2::nat) \<and> [1, 0] \<noteq> ([]::nat list) \<and> set [1, 0] \<subseteq> {..<length two_windows} \<and>
   (\<exists>out. EEGClassifier_predict_with_supercrop_inds_and_ys scoring_net echo_proba
             (data_loader [1, 0] 2 two_windows) = Inr out \<and>
      preds out = [''w1'', ''w0''] \<and>
      i_supercrop_in_trials out = [1, 0] \<and>
      i_supercrop_stops out = [150, 100] \<and>
      supercrop_ys out = [0, 1])"
proof -
  have a: "0 < (2::nat)" by simp
  have b: "[1, 0] \<noteq> ([]::nat list)" by simp
  have c: "set [1, 0] \<subseteq> {..<length two_windows}" by (simp add: two_windows_def)
  show ?thesis
    using a b c predictor_follows_sampler [OF a b c, of scoring_net echo_proba]
    by (simp add: data_loader_def chunks_step collate_def echo_proba_def two_windows_def
        item_x_def item_y_def item_i_supercrop_in_trial_def item_i_stop_in_trial_def)
qed

text \<open>
  Claim C10 as stated fails: on an iterator that visits the two windows in the order
  \<open>1, 0\<close> the predictor returns arrays, in that order, and raises nothing.
\<close>

theorem predictor_shuffled_counterexample:
  "EEGClassifier_predict_with_supercrop_inds_and_ys scoring_net echo_proba
     (data_loader [1, 0] 1 two_windows) =
   Inr \<lparr>preds = [''w1'', ''w0''], i_supercrop_in_trials = [1, 0],
        i_supercrop_stops = [150, 100], supercrop_ys = [0, 1]\<rparr>"
  by (simp add: chunks_step data_loader_def two_windows_def collate_def
      EEGClassifier_predict_with_supercrop_inds_and_ys_def EEGClassifier_get_iterator_def
      py_index_def np_concatenate_def echo_proba_def item_x_def item_y_def
      item_i_supercrop_in_trial_def item_i_stop_in_trial_def item_i_start_in_trial_def)

end
